theory Spec2Isabelle
  imports Main "HOL-Library.Sublist"
begin

section \<open>Python values of a filter tree\<close>

text \<open>
  The filter compiler of \<^verbatim>\<open>document_stores/vespa/filters.py\<close> receives a JSON-like
  Python object: its parameters are annotated \<^verbatim>\<open>dict[str, Any]\<close> and \<^verbatim>\<open>Any\<close>, and the
  code inspects the dynamic type of what it gets (\<^verbatim>\<open>isinstance\<close>, \<^verbatim>\<open>in\<close>, subscripting,
  truth value, iteration). The embedding therefore keeps the dynamic type in the value.

  A float is either not-a-number, an infinity with its sign, or finite; a finite float is
  represented by the decimal text that \<^verbatim>\<open>str\<close> prints for it (\<^verbatim>\<open>1.0\<close>, \<^verbatim>\<open>0.95\<close>), since the
  code does nothing with a finite float but print it. A dictionary is an association
  list with string keys, looked up from the front. Strings are byte strings; the three
  characters the code treats specially (backslash and the two quotes) and the prefix
  \<^verbatim>\<open>meta.\<close> are ASCII, so they never occur inside a multi-byte character.
\<close>

datatype pyfloat = NaN | Inf bool | Finite string

datatype pyval =
    PNone
  | PBool bool
  | PInt int
  | PFloat pyfloat
  | PStr string
  | PList "pyval list"
  | PDict "(string \<times> pyval) list"

text \<open>
  The exceptions that can leave the module. \<^verbatim>\<open>FilterError\<close> is the one the code raises
  itself (its message is not modelled); \<^verbatim>\<open>TypeError\<close>, \<^verbatim>\<open>AttributeError\<close> and \<^verbatim>\<open>KeyError\<close>
  are raised by the interpreter when an operation is applied to a value that does not
  support it.
\<close>

datatype error = FilterError | TypeError | AttributeError | KeyError | RecursionError

type_synonym 'a result = "error + 'a"

subsection \<open>Built-in operations the code applies to values\<close>

text \<open>\<^verbatim>\<open>math.isinf\<close> and \<^verbatim>\<open>math.isnan\<close>; the code calls them on floats only.\<close>

fun isinf :: "pyval \<Rightarrow> bool" where
  "isinf (PFloat (Inf _)) = True"
| "isinf _ = False"

fun isnan :: "pyval \<Rightarrow> bool" where
  "isnan (PFloat NaN) = True"
| "isnan _ = False"

text \<open>\<^verbatim>\<open>isinstance(v, str)\<close>, \<^verbatim>\<open>isinstance(v, bool)\<close>, \<^verbatim>\<open>isinstance(v, float)\<close>,
  \<^verbatim>\<open>isinstance(v, list)\<close>, \<^verbatim>\<open>isinstance(v, dict)\<close> and \<^verbatim>\<open>isinstance(v, (int, float))\<close>.
  In Python \<^verbatim>\<open>bool\<close> is a subclass of \<^verbatim>\<open>int\<close>, so a boolean passes the last test.\<close>

fun isinstance_str :: "pyval \<Rightarrow> bool" where
  "isinstance_str (PStr _) = True"
| "isinstance_str _ = False"

fun isinstance_bool :: "pyval \<Rightarrow> bool" where
  "isinstance_bool (PBool _) = True"
| "isinstance_bool _ = False"

fun isinstance_float :: "pyval \<Rightarrow> bool" where
  "isinstance_float (PFloat _) = True"
| "isinstance_float _ = False"

fun isinstance_list :: "pyval \<Rightarrow> bool" where
  "isinstance_list (PList _) = True"
| "isinstance_list _ = False"

fun isinstance_dict :: "pyval \<Rightarrow> bool" where
  "isinstance_dict (PDict _) = True"
| "isinstance_dict _ = False"

fun isinstance_int_float :: "pyval \<Rightarrow> bool" where
  "isinstance_int_float (PBool _) = True"
| "isinstance_int_float (PInt _) = True"
| "isinstance_int_float (PFloat _) = True"
| "isinstance_int_float _ = False"

text \<open>\<^verbatim>\<open>str\<close> of an integer: its decimal digits, with a minus sign when negative.\<close>

definition digit_char :: "nat \<Rightarrow> char" where
  "digit_char d = char_of (48 + d)"

fun str_nat :: "nat \<Rightarrow> string" where
  "str_nat n = (if n < 10 then [digit_char n] else str_nat (n div 10) @ [digit_char (n mod 10)])"

declare str_nat.simps [simp del]

definition str_int :: "int \<Rightarrow> string" where
  "str_int i = (if i < 0 then ''-'' @ str_nat (nat (- i)) else str_nat (nat i))"

text \<open>\<^verbatim>\<open>str\<close> of a float.\<close>

fun str_float :: "pyfloat \<Rightarrow> string" where
  "str_float NaN = ''nan''"
| "str_float (Inf negative) = (if negative then ''-inf'' else ''inf'')"
| "str_float (Finite text) = text"

text \<open>\<^verbatim>\<open>str(v)\<close> for the values the code prints with it: numbers, and booleans as the
  subclass of \<^verbatim>\<open>int\<close> they are (\<^verbatim>\<open>str(True)\<close> is \<^verbatim>\<open>True\<close>).\<close>

fun str_num :: "pyval \<Rightarrow> string" where
  "str_num (PBool b) = (if b then ''True'' else ''False'')"
| "str_num (PInt i) = str_int i"
| "str_num (PFloat x) = str_float x"
| "str_num _ = []"

text \<open>\<^verbatim>\<open>s.replace(old, new)\<close> for a one-character \<^verbatim>\<open>old\<close>: every occurrence is replaced,
  left to right.\<close>

definition replace_char :: "char \<Rightarrow> string \<Rightarrow> string \<Rightarrow> string" where
  "replace_char old new s = concat (map (\<lambda>c. if c = old then new else [c]) s)"

text \<open>\<^verbatim>\<open>sep.join(parts)\<close>.\<close>

fun join :: "string \<Rightarrow> string list \<Rightarrow> string" where
  "join sep [] = []"
| "join sep [p] = p"
| "join sep (p # q # ps) = p @ sep @ join sep (q # ps)"

text \<open>\<^verbatim>\<open>key in s\<close> for two strings: \<^verbatim>\<open>key\<close> occurs in \<^verbatim>\<open>s\<close> as a substring.\<close>

fun str_contains :: "string \<Rightarrow> string \<Rightarrow> bool" where
  "str_contains key [] = (key = [])"
| "str_contains key (c # s) = (prefix key (c # s) \<or> str_contains key s)"

text \<open>\<^verbatim>\<open>key in x\<close> for a string \<^verbatim>\<open>key\<close>: key membership for a dictionary, substring test
  for a string, element test for a list (a string equals only a string), and
  \<^verbatim>\<open>TypeError\<close> for a value that is not a container.\<close>

fun py_in :: "string \<Rightarrow> pyval \<Rightarrow> bool result" where
  "py_in key (PDict d) = Inr (map_of d key \<noteq> None)"
| "py_in key (PStr s) = Inr (str_contains key s)"
| "py_in key (PList xs) = Inr (PStr key \<in> set xs)"
| "py_in key _ = Inl TypeError"

text \<open>\<^verbatim>\<open>x[key]\<close> for a string \<^verbatim>\<open>key\<close>: the value stored in a dictionary, \<^verbatim>\<open>KeyError\<close>
  when the key is missing; \<^verbatim>\<open>TypeError\<close> for a string or a list, whose indices must be
  integers, and for any other value.\<close>

fun py_getitem :: "pyval \<Rightarrow> string \<Rightarrow> pyval result" where
  "py_getitem (PDict d) key = (case map_of d key of Some v \<Rightarrow> Inr v | None \<Rightarrow> Inl KeyError)"
| "py_getitem _ key = Inl TypeError"

text \<open>The truth value of a value, as \<^verbatim>\<open>not x\<close> tests it.\<close>

fun py_truthy :: "pyval \<Rightarrow> bool" where
  "py_truthy PNone = False"
| "py_truthy (PBool b) = b"
| "py_truthy (PInt i) = (i \<noteq> 0)"
| "py_truthy (PFloat x) = (x \<noteq> Finite ''0.0'' \<and> x \<noteq> Finite ''-0.0'')"
| "py_truthy (PStr s) = (s \<noteq> [])"
| "py_truthy (PList xs) = (xs \<noteq> [])"
| "py_truthy (PDict d) = (d \<noteq> [])"

text \<open>The items a \<^verbatim>\<open>for\<close> loop over a value visits: the elements of a list, the
  one-character strings of a string, the keys of a dictionary; \<^verbatim>\<open>TypeError\<close> for a value
  that is not iterable.\<close>

fun py_iter :: "pyval \<Rightarrow> pyval list result" where
  "py_iter (PList xs) = Inr xs"
| "py_iter (PStr s) = Inr (map (\<lambda>c. PStr [c]) s)"
| "py_iter (PDict d) = Inr (map (\<lambda>kv. PStr (fst kv)) d)"
| "py_iter _ = Inl TypeError"

text \<open>\<^verbatim>\<open>field.startswith(p)\<close>: only a string has the method; any other value of a
  filter tree raises \<^verbatim>\<open>AttributeError\<close>.\<close>

fun py_startswith :: "pyval \<Rightarrow> string \<Rightarrow> bool result" where
  "py_startswith (PStr s) p = Inr (prefix p s)"
| "py_startswith _ p = Inl AttributeError"

text \<open>The payload of a value whose type the code has tested with \<^verbatim>\<open>isinstance\<close> before.\<close>

fun str_of :: "pyval \<Rightarrow> string" where
  "str_of (PStr s) = s"
| "str_of _ = []"

fun list_of_val :: "pyval \<Rightarrow> pyval list" where
  "list_of_val (PList xs) = xs"
| "list_of_val _ = []"

section \<open>The filter compiler\<close>

abbreviation backslash :: char where "backslash \<equiv> CHR 0x5C"
abbreviation dquote :: char where "dquote \<equiv> CHR 0x22"
abbreviation squote :: char where "squote \<equiv> CHR 0x27"

subsection \<open>Value rendering\<close>

text \<open>\<^verbatim>\<open>_escape_yql_string\<close>: two \<^verbatim>\<open>replace\<close> passes, backslashes first, then double quotes.\<close>

definition escape_yql_string :: "string \<Rightarrow> string" where
  "escape_yql_string value =
     replace_char dquote [backslash, dquote] (replace_char backslash [backslash, backslash] value)"

text \<open>\<^verbatim>\<open>_format_value\<close>: the chain of \<^verbatim>\<open>isinstance\<close> tests in the order of the source.\<close>

definition format_value :: "pyval \<Rightarrow> string result" where
  "format_value value =
     (if isinstance_str value then Inr ([dquote] @ escape_yql_string (str_of value) @ [dquote])
      else if isinstance_bool value then Inr (if py_truthy value then ''true'' else ''false'')
      else if isinstance_int_float value then
        (if isinstance_float value \<and> (isinf value \<or> isnan value) then Inl FilterError
         else Inr (str_num value))
      else Inl FilterError)"

subsection \<open>Operator formatters\<close>

definition equal_op :: "string \<Rightarrow> pyval \<Rightarrow> string result" where
  "equal_op field value =
     (if value = PNone then Inl FilterError
      else if isinstance_str value then
        Inr (field @ '' contains '' @ [dquote] @ escape_yql_string (str_of value) @ [dquote])
      else case format_value value of
             Inl e \<Rightarrow> Inl e
           | Inr rendered \<Rightarrow> Inr (field @ '' = '' @ rendered))"

definition not_equal_op :: "string \<Rightarrow> pyval \<Rightarrow> string result" where
  "not_equal_op field value =
     (if value = PNone then Inl FilterError
      else if isinstance_str value then
        Inr (''!('' @ field @ '' contains '' @ [dquote] @ escape_yql_string (str_of value)
             @ [dquote] @ '')'')
      else case format_value value of
             Inl e \<Rightarrow> Inl e
           | Inr rendered \<Rightarrow> Inr (''!('' @ field @ '' = '' @ rendered @ '')''))"

text \<open>\<^verbatim>\<open>_validate_range_value\<close> returns nothing; it raises or it does not.\<close>

definition validate_range_value :: "pyval \<Rightarrow> unit result" where
  "validate_range_value value =
     (if value = PNone then Inl FilterError
      else if isinstance_list value then Inl FilterError
      else Inr ())"

definition greater_than_op :: "string \<Rightarrow> pyval \<Rightarrow> string result" where
  "greater_than_op field value =
     (case validate_range_value value of
        Inl e \<Rightarrow> Inl e
      | Inr _ \<Rightarrow> (case format_value value of
                   Inl e \<Rightarrow> Inl e
                 | Inr rendered \<Rightarrow> Inr (field @ '' > '' @ rendered)))"

definition greater_than_equal_op :: "string \<Rightarrow> pyval \<Rightarrow> string result" where
  "greater_than_equal_op field value =
     (case validate_range_value value of
        Inl e \<Rightarrow> Inl e
      | Inr _ \<Rightarrow> (case format_value value of
                   Inl e \<Rightarrow> Inl e
                 | Inr rendered \<Rightarrow> Inr (field @ '' >= '' @ rendered)))"

definition less_than_op :: "string \<Rightarrow> pyval \<Rightarrow> string result" where
  "less_than_op field value =
     (case validate_range_value value of
        Inl e \<Rightarrow> Inl e
      | Inr _ \<Rightarrow> (case format_value value of
                   Inl e \<Rightarrow> Inl e
                 | Inr rendered \<Rightarrow> Inr (field @ '' < '' @ rendered)))"

definition less_than_equal_op :: "string \<Rightarrow> pyval \<Rightarrow> string result" where
  "less_than_equal_op field value =
     (case validate_range_value value of
        Inl e \<Rightarrow> Inl e
      | Inr _ \<Rightarrow> (case format_value value of
                   Inl e \<Rightarrow> Inl e
                 | Inr rendered \<Rightarrow> Inr (field @ '' <= '' @ rendered)))"

text \<open>The loop of \<^verbatim>\<open>_in\<close> over the list: \<^verbatim>\<open>formatted_values\<close> is the accumulator, each
  element is appended to its end, and the first unsupported element raises.\<close>

fun in_loop :: "pyval list \<Rightarrow> string list \<Rightarrow> string list result" where
  "in_loop [] formatted_values = Inr formatted_values"
| "in_loop (v # vs) formatted_values =
     (if isinstance_str v then
        in_loop vs (formatted_values @
          [[squote] @ replace_char squote [backslash, squote]
                        (replace_char backslash [backslash, backslash] (str_of v)) @ [squote]])
      else if isinstance_bool v then
        in_loop vs (formatted_values @ [if py_truthy v then ''true'' else ''false''])
      else if isinstance_int_float v then
        in_loop vs (formatted_values @ [str_num v])
      else Inl FilterError)"

definition in_op :: "string \<Rightarrow> pyval \<Rightarrow> string result" where
  "in_op field value =
     (if \<not> isinstance_list value then Inl FilterError
      else if \<not> py_truthy value then Inl FilterError
      else case in_loop (list_of_val value) [] of
             Inl e \<Rightarrow> Inl e
           | Inr formatted_values \<Rightarrow> Inr (field @ '' in ('' @ join '', '' formatted_values @ '')''))"

definition not_in_op :: "string \<Rightarrow> pyval \<Rightarrow> string result" where
  "not_in_op field value =
     (if \<not> isinstance_list value then Inl FilterError
      else case in_op field value of
             Inl e \<Rightarrow> Inl e
           | Inr inner \<Rightarrow> Inr (''!('' @ inner @ '')''))"

text \<open>The table \<^verbatim>\<open>COMPARISON_OPERATORS\<close>, from operator text to formatter.\<close>

definition COMPARISON_OPERATORS :: "string \<rightharpoonup> (string \<Rightarrow> pyval \<Rightarrow> string result)" where
  "COMPARISON_OPERATORS = map_of
     [(''=='', equal_op),
      (''!='', not_equal_op),
      (''>'', greater_than_op),
      (''>='', greater_than_equal_op),
      (''<'', less_than_op),
      (''<='', less_than_equal_op),
      (''in'', in_op),
      (''not in'', not_in_op)]"

text \<open>\<^verbatim>\<open>operator not in COMPARISON_OPERATORS\<close> followed by \<^verbatim>\<open>COMPARISON_OPERATORS[operator]\<close>,
  for whatever value the node stores under \<^verbatim>\<open>operator\<close>: a list or a dictionary is
  unhashable and the membership test raises \<^verbatim>\<open>TypeError\<close>; a value that is not a string
  equals none of the keys.\<close>

fun lookup_operator :: "pyval \<Rightarrow> (string \<Rightarrow> pyval \<Rightarrow> string result) option result" where
  "lookup_operator (PStr operator) = Inr (COMPARISON_OPERATORS operator)"
| "lookup_operator (PList _) = Inl TypeError"
| "lookup_operator (PDict _) = Inl TypeError"
| "lookup_operator _ = Inr None"

subsection \<open>The recursion over the tree\<close>

text \<open>
  \<^verbatim>\<open>_parse_logical_condition\<close> and \<^verbatim>\<open>_parse_comparison_condition\<close> call each other;
  \<open>parse_conditions\<close> is the list comprehension
  \<^verbatim>\<open>[_parse_comparison_condition(c) for c in condition["conditions"]]\<close>, which compiles the
  children from left to right and stops at the first one that raises. The children are
  compiled before the logical operator is looked at, as in the source.

  The recursion ends because a child is a proper part of its parent: a value taken out of
  a dictionary is smaller than the dictionary, and the items of an iteration are no larger
  than the value iterated over. (The interpreter's recursion limit is not modelled.)
\<close>

fun max_size :: "pyval list \<Rightarrow> nat" where
  "max_size [] = 0"
| "max_size (x # xs) = max (size x) (max_size xs)"

lemma map_of_size:
  "map_of d k = Some v \<Longrightarrow> size v < Suc (size_list (size_prod (\<lambda>x. 0) size) d)"
  by (induction d) (auto split: if_splits)

lemma getitem_size: "py_getitem c k = Inr v \<Longrightarrow> size v < size c"
  by (cases c) (auto split: option.splits dest: map_of_size)

lemma max_size_strs: "max_size (map (\<lambda>c. PStr [c]) s) = 0"
  by (induction s) auto

lemma max_size_keys: "max_size (map (\<lambda>kv. PStr (fst kv)) d) = 0"
  by (induction d) auto

lemma max_size_list: "max_size xs \<le> size_list size xs"
  by (induction xs) auto

lemma iter_size: "py_iter c = Inr items \<Longrightarrow> max_size items \<le> size c"
  using max_size_list by (cases c) (auto simp: max_size_strs max_size_keys le_SucI)

function parse_logical_condition :: "pyval \<Rightarrow> string result"
  and parse_comparison_condition :: "pyval \<Rightarrow> string result"
  and parse_conditions :: "pyval list \<Rightarrow> string list result"
where
  "parse_logical_condition condition =
     (case py_in ''operator'' condition of
        Inl e \<Rightarrow> Inl e
      | Inr has_operator \<Rightarrow>
     if \<not> has_operator then Inl FilterError else
     (case py_in ''conditions'' condition of
        Inl e \<Rightarrow> Inl e
      | Inr has_conditions \<Rightarrow>
     if \<not> has_conditions then Inl FilterError else
     (case py_getitem condition ''operator'' of
        Inl e \<Rightarrow> Inl e
      | Inr operator \<Rightarrow>
     (case py_getitem condition ''conditions'' of
        Inl e \<Rightarrow> Inl e
      | Inr children \<Rightarrow>
     if \<not> py_truthy children then Inl FilterError else
     (case py_iter children of
        Inl e \<Rightarrow> Inl e
      | Inr items \<Rightarrow>
     (case parse_conditions items of
        Inl e \<Rightarrow> Inl e
      | Inr conditions \<Rightarrow>
     if operator = PStr ''AND'' then Inr (''('' @ join '' and '' conditions @ '')'')
     else if operator = PStr ''OR'' then Inr (''('' @ join '' or '' conditions @ '')'')
     else if operator = PStr ''NOT'' then Inr (''!('' @ join '' and '' conditions @ '')'')
     else Inl FilterError))))))"
| "parse_comparison_condition condition =
     (case py_in ''field'' condition of
        Inl e \<Rightarrow> Inl e
      | Inr has_field \<Rightarrow>
     if \<not> has_field then parse_logical_condition condition else
     (case py_getitem condition ''field'' of
        Inl e \<Rightarrow> Inl e
      | Inr field0 \<Rightarrow>
     (case py_startswith field0 ''meta.'' of
        Inl e \<Rightarrow> Inl e
      | Inr has_prefix \<Rightarrow>
     let field = (if has_prefix then drop 5 (str_of field0) else str_of field0) in
     (case py_in ''operator'' condition of
        Inl e \<Rightarrow> Inl e
      | Inr has_operator \<Rightarrow>
     if \<not> has_operator then Inl FilterError else
     (case py_in ''value'' condition of
        Inl e \<Rightarrow> Inl e
      | Inr has_value \<Rightarrow>
     if \<not> has_value then Inl FilterError else
     (case py_getitem condition ''operator'' of
        Inl e \<Rightarrow> Inl e
      | Inr operator \<Rightarrow>
     (case py_getitem condition ''value'' of
        Inl e \<Rightarrow> Inl e
      | Inr value \<Rightarrow>
     (case lookup_operator operator of
        Inl e \<Rightarrow> Inl e
      | Inr None \<Rightarrow> Inl FilterError
      | Inr (Some formatter) \<Rightarrow> formatter field value))))))))"
| "parse_conditions [] = Inr []"
| "parse_conditions (c # cs) =
     (case parse_comparison_condition c of
        Inl e \<Rightarrow> Inl e
      | Inr fragment \<Rightarrow>
     (case parse_conditions cs of
        Inl e \<Rightarrow> Inl e
      | Inr fragments \<Rightarrow> Inr (fragment # fragments)))"
  by pat_completeness auto

termination parse_logical_condition
proof (relation "measures
     [\<lambda>x. case x of
        Inl c \<Rightarrow> 3 * size c
      | Inr (Inl c) \<Rightarrow> 3 * size c + 1
      | Inr (Inr items) \<Rightarrow> 3 * max_size items + 2,
      \<lambda>x. case x of Inr (Inr items) \<Rightarrow> length items | _ \<Rightarrow> 0]", goal_cases)
  case 1
  show ?case by simp
next
  case (2 condition b ba bb bc bd)
  from 2 have "size bc < size condition" and "max_size bd \<le> size bc"
    by (auto dest: getitem_size iter_size)
  then show ?case by simp
next
  case 3
  show ?case by simp
next
  case (4 c cs)
  show ?case by (simp add: max_def)
next
  case (5 c cs b)
  show ?case by (simp add: max_def)
qed

declare parse_logical_condition.simps [simp del]
declare parse_comparison_condition.simps [simp del]

text \<open>\<^verbatim>\<open>normalize_filters\<close>, the entry point.\<close>

definition normalize_filters :: "pyval \<Rightarrow> string result" where
  "normalize_filters filters =
     (if \<not> isinstance_dict filters then Inl FilterError
      else case py_in ''field'' filters of
             Inl e \<Rightarrow> Inl e
           | Inr has_field \<Rightarrow>
               if has_field then parse_comparison_condition filters
               else parse_logical_condition filters)"

section \<open>The escaping the specification describes\<close>

text \<open>
  Following the specification's words, not the code: a string is backslash-escaped for a
  set of special characters when every occurrence of a special character gets one
  backslash in front of it, and every other character is left as it is.
\<close>

definition backslash_escaped :: "string \<Rightarrow> string \<Rightarrow> string" where
  "backslash_escaped special s =
     concat (map (\<lambda>c. if c \<in> set special then [backslash, c] else [c]) s)"

text \<open>
  Following the words of claim C7, not the code: the precondition violations the claim
  lists, for one node. A logical node (no \<^verbatim>\<open>field\<close> key) with an empty list of conditions;
  a comparison node with \<^verbatim>\<open>None\<close> under \<^verbatim>\<open>==\<close>, \<^verbatim>\<open>!=\<close> or a range operator, with a list under
  a range operator, with a value that is not a list under \<^verbatim>\<open>in\<close> or \<^verbatim>\<open>not in\<close>, or with an
  empty list under \<^verbatim>\<open>in\<close> or \<^verbatim>\<open>not in\<close>.
\<close>

fun listed_violation :: "pyval \<Rightarrow> bool" where
  "listed_violation (PDict d) =
     (case map_of d ''field'' of
        None \<Rightarrow> map_of d ''conditions'' = Some (PList [])
      | Some field \<Rightarrow>
          (case (map_of d ''operator'', map_of d ''value'') of
             (Some (PStr operator), Some value) \<Rightarrow>
               (value = PNone \<and> operator \<in> set [''=='', ''!='', ''>'', ''>='', ''<'', ''<=''])
               \<or> (isinstance_list value \<and> operator \<in> set [''>'', ''>='', ''<'', ''<=''])
               \<or> (operator \<in> set [''in'', ''not in''] \<and> \<not> isinstance_list value)
               \<or> (operator \<in> set [''in'', ''not in''] \<and> value = PList [])
           | _ \<Rightarrow> False))"
| "listed_violation _ = False"

section \<open>Basic facts about the embedding\<close>

lemma comparison_node:
  assumes "map_of d ''field'' = Some (PStr f)"
    and "map_of d ''operator'' = Some (PStr operator)"
    and "map_of d ''value'' = Some v"
  shows "parse_comparison_condition (PDict d) =
           (case COMPARISON_OPERATORS operator of
              None \<Rightarrow> Inl FilterError
            | Some formatter \<Rightarrow> formatter (if prefix ''meta.'' f then drop 5 f else f) v)"
  using assms by (simp add: parse_comparison_condition.simps split: option.splits)

lemma normalize_comparison_node:
  assumes "map_of d ''field'' = Some (PStr f)"
    and "map_of d ''operator'' = Some (PStr operator)"
    and "map_of d ''value'' = Some v"
  shows "normalize_filters (PDict d) =
           (case COMPARISON_OPERATORS operator of
              None \<Rightarrow> Inl FilterError
            | Some formatter \<Rightarrow> formatter (if prefix ''meta.'' f then drop 5 f else f) v)"
  using assms comparison_node [OF assms] by (simp add: normalize_filters_def)

lemma COMPARISON_OPERATORS_simps:
  "COMPARISON_OPERATORS ''=='' = Some equal_op"
  "COMPARISON_OPERATORS ''!='' = Some not_equal_op"
  "COMPARISON_OPERATORS ''>'' = Some greater_than_op"
  "COMPARISON_OPERATORS ''>='' = Some greater_than_equal_op"
  "COMPARISON_OPERATORS ''<'' = Some less_than_op"
  "COMPARISON_OPERATORS ''<='' = Some less_than_equal_op"
  "COMPARISON_OPERATORS ''in'' = Some in_op"
  "COMPARISON_OPERATORS ''not in'' = Some not_in_op"
  by (simp_all add: COMPARISON_OPERATORS_def)

lemma format_value_simps:
  "format_value (PStr s) = Inr ([dquote] @ escape_yql_string s @ [dquote])"
  "format_value (PBool b) = Inr (if b then ''true'' else ''false'')"
  "format_value (PInt i) = Inr (str_int i)"
  "format_value (PFloat (Finite t)) = Inr t"
  "format_value (PFloat (Inf sg)) = Inl FilterError"
  "format_value (PFloat NaN) = Inl FilterError"
  "format_value PNone = Inl FilterError"
  "format_value (PList xs) = Inl FilterError"
  "format_value (PDict d) = Inl FilterError"
  by (simp_all add: format_value_def)

lemma replace_char_Nil: "replace_char old new [] = []"
  by (simp add: replace_char_def)

lemma replace_char_Cons:
  "replace_char old new (c # s) = (if c = old then new else [c]) @ replace_char old new s"
  by (simp add: replace_char_def)

lemma replace_char_append:
  "replace_char old new (s @ t) = replace_char old new s @ replace_char old new t"
  by (simp add: replace_char_def)

lemma escape_yql_string_spec: "escape_yql_string s = backslash_escaped [backslash, dquote] s"
  by (induction s)
    (simp_all add: escape_yql_string_def backslash_escaped_def replace_char_Nil
      replace_char_Cons replace_char_append)

lemma escape_single_quoted_spec:
  "replace_char squote [backslash, squote] (replace_char backslash [backslash, backslash] s)
     = backslash_escaped [backslash, squote] s"
  by (induction s)
    (simp_all add: backslash_escaped_def replace_char_Nil replace_char_Cons replace_char_append)

lemma in_loop_append:
  "in_loop (us @ vs) acc = (case in_loop us acc of Inl e \<Rightarrow> Inl e | Inr sofar \<Rightarrow> in_loop vs sofar)"
  by (induction us arbitrary: acc) simp_all

lemma in_loop_strings:
  "in_loop (map PStr ss) acc =
     Inr (acc @ map (\<lambda>s. [squote] @ backslash_escaped [backslash, squote] s @ [squote]) ss)"
  by (induction ss arbitrary: acc) (simp_all add: escape_single_quoted_spec)

lemma in_loop_bools:
  "in_loop (map PBool bs) acc = Inr (acc @ map (\<lambda>b. if b then ''true'' else ''false'') bs)"
  by (induction bs arbitrary: acc) simp_all

lemma backslash_escaped_length:
  "length (backslash_escaped special s) = length s + length (filter (\<lambda>c. c \<in> set special) s)"
  by (induction s) (simp_all add: backslash_escaped_def)

lemma parse_conditions_list_all2:
  "(parse_conditions cs = Inr frags) =
     list_all2 (\<lambda>c frag. parse_comparison_condition c = Inr frag) cs frags"
proof (induction cs arbitrary: frags)
  case Nil
  show ?case by auto
next
  case (Cons c cs)
  show ?case
    by (cases frags) (auto simp: Cons.IH [symmetric] split: sum.splits)
qed

lemma parse_conditions_length: "parse_conditions cs = Inr frags \<Longrightarrow> length frags = length cs"
  by (simp add: parse_conditions_list_all2 list_all2_lengthD)

lemma logical_node:
  assumes "map_of d ''operator'' = Some opv"
    and "map_of d ''conditions'' = Some conds"
  shows "parse_logical_condition (PDict d) =
     (if \<not> py_truthy conds then Inl FilterError
      else case py_iter conds of
        Inl e \<Rightarrow> Inl e
      | Inr items \<Rightarrow>
          (case parse_conditions items of
             Inl e \<Rightarrow> Inl e
           | Inr frags \<Rightarrow>
               if opv = PStr ''AND'' then Inr (''('' @ join '' and '' frags @ '')'')
               else if opv = PStr ''OR'' then Inr (''('' @ join '' or '' frags @ '')'')
               else if opv = PStr ''NOT'' then Inr (''!('' @ join '' and '' frags @ '')'')
               else Inl FilterError))"
  using assms by (simp add: parse_logical_condition.simps split: sum.splits)

lemma no_field_is_logical:
  "py_in ''field'' c = Inr False \<Longrightarrow> parse_comparison_condition c = parse_logical_condition c"
  by (simp add: parse_comparison_condition.simps)

lemma normalize_no_field:
  "map_of d ''field'' = None \<Longrightarrow> normalize_filters (PDict d) = parse_logical_condition (PDict d)"
  by (simp add: normalize_filters_def)

lemma in_loop_length:
  "in_loop vs acc = Inr r \<Longrightarrow> length r = length acc + length vs"
  by (induction vs arbitrary: acc) (auto split: if_splits)

lemma in_op_Inr:
  assumes "in_op field v = Inr out"
  shows "\<exists>items. items \<noteq> [] \<and> length items = length (list_of_val v)
            \<and> out = field @ '' in ('' @ join '', '' items @ '')''"
proof -
  from assms obtain xs where v: "v = PList xs" and ne: "xs \<noteq> []"
    by (cases v) (auto simp: in_op_def split: if_splits)
  from assms v ne obtain items where loop: "in_loop xs [] = Inr items"
    and out: "out = field @ '' in ('' @ join '', '' items @ '')''"
    by (auto simp: in_op_def split: sum.splits)
  from in_loop_length [OF loop] ne have "items \<noteq> []" "length items = length xs" by auto
  with out v show ?thesis by auto
qed

lemma formatter_cases:
  assumes "COMPARISON_OPERATORS operator = Some formatter"
  shows "formatter \<in> {equal_op, not_equal_op, greater_than_op, greater_than_equal_op,
           less_than_op, less_than_equal_op, in_op, not_in_op}"
  using assms by (auto simp: COMPARISON_OPERATORS_def split: if_splits)

lemma formatter_nonempty:
  assumes "COMPARISON_OPERATORS operator = Some formatter" and "formatter field v = Inr out"
  shows "out \<noteq> []"
  using formatter_cases [OF assms(1)] assms(2)
  by (auto simp: equal_op_def not_equal_op_def greater_than_op_def greater_than_equal_op_def
      less_than_op_def less_than_equal_op_def in_op_def not_in_op_def
      split: if_splits sum.splits)

lemma lookup_operator_Some:
  "lookup_operator x = Inr (Some formatter) \<Longrightarrow> \<exists>operator. COMPARISON_OPERATORS operator = Some formatter"
  by (cases x) auto

lemma parse_logical_condition_Inr:
  assumes "parse_logical_condition c = Inr out"
  shows "\<exists>items frags. items \<noteq> [] \<and> parse_conditions items = Inr frags
           \<and> (out = ''('' @ join '' and '' frags @ '')''
              \<or> out = ''('' @ join '' or '' frags @ '')''
              \<or> out = ''!('' @ join '' and '' frags @ '')'')"
proof -
  from assms obtain d where c: "c = PDict d"
    by (cases c) (auto simp: parse_logical_condition.simps split: if_splits sum.splits)
  from assms c obtain opv conds where opv: "map_of d ''operator'' = Some opv"
    and conds: "map_of d ''conditions'' = Some conds"
    by (auto simp: parse_logical_condition.simps split: if_splits sum.splits option.splits)
  note eq = assms [unfolded c logical_node [OF opv conds]]
  from eq have truthy: "py_truthy conds" by (auto split: if_splits)
  from eq truthy obtain items where items: "py_iter conds = Inr items"
    by (auto split: sum.splits)
  from truthy items have ne: "items \<noteq> []" by (cases conds) auto
  from eq truthy items obtain frags where frags: "parse_conditions items = Inr frags"
    by (auto split: sum.splits)
  from eq truthy items frags have
    "out = ''('' @ join '' and '' frags @ '')''
      \<or> out = ''('' @ join '' or '' frags @ '')''
      \<or> out = ''!('' @ join '' and '' frags @ '')''"
    by (auto split: if_splits)
  with ne frags show ?thesis by blast
qed

lemma parse_logical_condition_nonempty: "parse_logical_condition c = Inr out \<Longrightarrow> out \<noteq> []"
  by (drule parse_logical_condition_Inr) auto

lemma parse_comparison_condition_nonempty:
  assumes "parse_comparison_condition c = Inr out"
  shows "out \<noteq> []"
proof (cases "py_in ''field'' c = Inr False")
  case True
  with assms show ?thesis
    by (simp add: no_field_is_logical parse_logical_condition_nonempty)
next
  case False
  with assms show ?thesis
    by (auto simp: parse_comparison_condition.simps Let_def
        split: sum.splits if_splits option.splits dest!: lookup_operator_Some dest: formatter_nonempty)
qed

lemma join_nonempty: "frags \<noteq> [] \<Longrightarrow> hd frags \<noteq> [] \<Longrightarrow> join sep frags \<noteq> []"
  by (induction sep frags rule: join.induct) auto

lemma parse_conditions_hd_nonempty:
  assumes "parse_conditions items = Inr frags" and "items \<noteq> []"
  shows "frags \<noteq> [] \<and> hd frags \<noteq> []"
proof -
  from assms(2) obtain c cs where items: "items = c # cs" by (cases items) auto
  with assms(1) obtain f fs where "frags = f # fs" and "parse_comparison_condition c = Inr f"
    by (auto split: sum.splits)
  then show ?thesis by (simp add: parse_comparison_condition_nonempty)
qed

lemma parse_logical_condition_no_empty_group:
  assumes "parse_logical_condition c = Inr out"
  shows "out \<noteq> ''()'' \<and> out \<noteq> ''!()''"
proof -
  from parse_logical_condition_Inr [OF assms] obtain items frags where
    ne: "items \<noteq> []" and frags: "parse_conditions items = Inr frags"
    and out: "out = ''('' @ join '' and '' frags @ '')''
              \<or> out = ''('' @ join '' or '' frags @ '')''
              \<or> out = ''!('' @ join '' and '' frags @ '')''"
    by blast
  from parse_conditions_hd_nonempty [OF frags ne] have
    "join '' and '' frags \<noteq> []" "join '' or '' frags \<noteq> []"
    by (simp_all add: join_nonempty)
  with out show ?thesis by auto
qed


lemma str_int_nonempty: "str_int i \<noteq> []"
  by (simp add: str_int_def str_nat.simps [of "nat i"] str_nat.simps [of "nat (- i)"])

lemma in_loop_prefix: "in_loop vs acc = Inr r \<Longrightarrow> \<exists>rest. r = acc @ rest"
  by (induction vs arbitrary: acc) (fastforce split: if_splits)+

lemma in_loop_first_nonempty:
  assumes "in_loop (v # vs) [] = Inr items"
    and "\<forall>t. v = PFloat (Finite t) \<longrightarrow> t \<noteq> []"
  shows "items \<noteq> [] \<and> hd items \<noteq> []"
proof -
  from assms(1) obtain x where step: "in_loop vs [x] = Inr items"
    and x: "x = (if isinstance_str v then
                   [squote] @ replace_char squote [backslash, squote]
                     (replace_char backslash [backslash, backslash] (str_of v)) @ [squote]
                 else if isinstance_bool v then (if py_truthy v then ''true'' else ''false'')
                 else str_num v)"
    and ok: "isinstance_str v \<or> isinstance_bool v \<or> isinstance_int_float v"
    by (auto split: if_splits)
  from in_loop_prefix [OF step] obtain rest where items: "items = x # rest" by auto
  from x ok assms(2) have "x \<noteq> []"
    by (cases v; cases "case v of PFloat y \<Rightarrow> y | _ \<Rightarrow> NaN")
       (auto simp: str_int_nonempty split: if_splits)
  with items show ?thesis by simp
qed

lemma in_op_no_empty_list:
  assumes "in_op field v = Inr out"
    and "\<forall>t. PFloat (Finite t) \<in> set (list_of_val v) \<longrightarrow> t \<noteq> []"
  shows "out \<noteq> field @ '' in ()''"
proof -
  from assms(1) obtain x xs where v: "v = PList (x # xs)"
    by (cases v; cases "list_of_val v") (auto simp: in_op_def split: if_splits)
  from assms(1) v obtain items where loop: "in_loop (x # xs) [] = Inr items"
    and out: "out = field @ '' in ('' @ join '', '' items @ '')''"
    by (auto simp: in_op_def split: sum.splits)
  from assms(2) v have "\<forall>t. x = PFloat (Finite t) \<longrightarrow> t \<noteq> []" by auto
  from in_loop_first_nonempty [OF loop this] have "join '', '' items \<noteq> []"
    by (simp add: join_nonempty)
  with out show ?thesis by auto
qed

section \<open>Properties of the compiler\<close>

text \<open>
  Claim C3. Strings are rendered under two escaping regimes. In a double-quoted fragment
  (\<^verbatim>\<open>_format_value\<close>, \<^verbatim>\<open>_equal\<close>) the two \<^verbatim>\<open>replace\<close> passes of \<^verbatim>\<open>_escape_yql_string\<close> put
  exactly one backslash in front of every backslash and every double quote of the value,
  so the result is longer than the value by the number of those characters. In the
  single-quoted list of \<^verbatim>\<open>_in\<close> every backslash and every single quote is escaped, and a
  double quote is left as it is.
\<close>

theorem string_escaping_regimes:
  "escape_yql_string s = backslash_escaped [backslash, dquote] s
   \<and> length (escape_yql_string s) = length s + length (filter (\<lambda>c. c = backslash \<or> c = dquote) s)
   \<and> format_value (PStr s) = Inr ([dquote] @ backslash_escaped [backslash, dquote] s @ [dquote])
   \<and> equal_op field (PStr s) =
         Inr (field @ '' contains '' @ [dquote] @ backslash_escaped [backslash, dquote] s @ [dquote])
   \<and> not_equal_op field (PStr s) =
         Inr (''!('' @ field @ '' contains '' @ [dquote] @ backslash_escaped [backslash, dquote] s
              @ [dquote] @ '')'')
   \<and> less_than_op field (PStr s) =
         Inr (field @ '' < '' @ [dquote] @ backslash_escaped [backslash, dquote] s @ [dquote])
   \<and> in_op field (PList (map PStr (s # ss))) =
         Inr (field @ '' in (''
              @ join '', '' (map (\<lambda>s. [squote] @ backslash_escaped [backslash, squote] s @ [squote]) (s # ss))
              @ '')'')
   \<and> backslash_escaped [backslash, squote] [dquote] = [dquote]"
proof -
  have 7: "not_equal_op field (PStr s) =
         Inr (''!('' @ field @ '' contains '' @ [dquote] @ backslash_escaped [backslash, dquote] s
              @ [dquote] @ '')'')"
    by (simp add: not_equal_op_def escape_yql_string_spec)
  have 8: "less_than_op field (PStr s) =
         Inr (field @ '' < '' @ [dquote] @ backslash_escaped [backslash, dquote] s @ [dquote])"
    by (simp add: less_than_op_def validate_range_value_def format_value_def
        escape_yql_string_spec)
  have 1: "escape_yql_string s = backslash_escaped [backslash, dquote] s"
    by (rule escape_yql_string_spec)
  have 2: "length (escape_yql_string s) = length s + length (filter (\<lambda>c. c = backslash \<or> c = dquote) s)"
    by (simp add: 1 backslash_escaped_length)
  have 3: "format_value (PStr s) = Inr ([dquote] @ backslash_escaped [backslash, dquote] s @ [dquote])"
    by (simp add: format_value_def 1)
  have 4: "equal_op field (PStr s) =
         Inr (field @ '' contains '' @ [dquote] @ backslash_escaped [backslash, dquote] s @ [dquote])"
    by (simp add: equal_op_def 1)
  have "in_loop (map PStr (s # ss)) [] =
      Inr (map (\<lambda>s. [squote] @ backslash_escaped [backslash, squote] s @ [squote]) (s # ss))"
    using in_loop_strings [of "s # ss" "[]"] by simp
  then have 5: "in_op field (PList (map PStr (s # ss))) =
         Inr (field @ '' in (''
              @ join '', '' (map (\<lambda>s. [squote] @ backslash_escaped [backslash, squote] s @ [squote]) (s # ss))
              @ '')'')"
    by (simp add: in_op_def)
  have 6: "backslash_escaped [backslash, squote] [dquote] = [dquote]"
    by (simp add: backslash_escaped_def)
  from 1 2 3 4 5 6 7 8 show ?thesis by blast
qed

text \<open>
  Claim C8. A boolean is rendered as \<^verbatim>\<open>true\<close> or \<^verbatim>\<open>false\<close>, by \<^verbatim>\<open>_format_value\<close> and at any
  position of the list of \<^verbatim>\<open>_in\<close> and \<^verbatim>\<open>_not_in\<close>; it never takes the numeric branch, whose
  \<^verbatim>\<open>str\<close> would print \<^verbatim>\<open>True\<close> or \<^verbatim>\<open>False\<close>, although a boolean passes the
  \<^verbatim>\<open>isinstance(v, (int, float))\<close> test of that branch.
\<close>

theorem boolean_rendering:
  "format_value (PBool b) = Inr (if b then ''true'' else ''false'')
   \<and> format_value (PBool b) \<noteq> Inr (str_num (PBool b))
   \<and> in_loop (us @ PBool b # vs) acc =
         (case in_loop us acc of
            Inl e \<Rightarrow> Inl e
          | Inr sofar \<Rightarrow> in_loop vs (sofar @ [if b then ''true'' else ''false'']))
   \<and> in_op field (PList (map PBool (b # bs))) =
         Inr (field @ '' in ('' @ join '', '' (map (\<lambda>b. if b then ''true'' else ''false'') (b # bs)) @ '')'')
   \<and> not_in_op field (PList (map PBool (b # bs))) =
         Inr (''!('' @ field @ '' in (''
              @ join '', '' (map (\<lambda>b. if b then ''true'' else ''false'') (b # bs)) @ ''))'')"
proof -
  have 1: "format_value (PBool b) = Inr (if b then ''true'' else ''false'')"
    by (simp add: format_value_def)
  have 2: "format_value (PBool b) \<noteq> Inr (str_num (PBool b))"
    by (simp add: format_value_def)
  have 3: "in_loop (us @ PBool b # vs) acc =
         (case in_loop us acc of
            Inl e \<Rightarrow> Inl e
          | Inr sofar \<Rightarrow> in_loop vs (sofar @ [if b then ''true'' else ''false'']))"
    by (simp add: in_loop_append split: sum.splits)
  have loop: "in_loop (map PBool (b # bs)) [] = Inr (map (\<lambda>b. if b then ''true'' else ''false'') (b # bs))"
    using in_loop_bools [of "b # bs" "[]"] by simp
  have 4: "in_op field (PList (map PBool (b # bs))) =
         Inr (field @ '' in ('' @ join '', '' (map (\<lambda>b. if b then ''true'' else ''false'') (b # bs)) @ '')'')"
    using loop by (simp add: in_op_def)
  have 5: "not_in_op field (PList (map PBool (b # bs))) =
         Inr (''!('' @ field @ '' in (''
              @ join '', '' (map (\<lambda>b. if b then ''true'' else ''false'') (b # bs)) @ ''))'')"
    using 4 by (simp add: not_in_op_def)
  from 1 2 3 4 5 show ?thesis by blast
qed

text \<open>
  Claim C10. A comparison node with a range operator and a boolean value compiles, to the
  field name (without its \<^verbatim>\<open>meta.\<close> prefix), the operator and \<^verbatim>\<open>true\<close> or \<^verbatim>\<open>false\<close>:
  \<^verbatim>\<open>_validate_range_value\<close> rejects \<^verbatim>\<open>None\<close> and lists only.
\<close>

theorem range_operator_boolean:
  assumes "map_of d ''field'' = Some (PStr f)"
    and "map_of d ''operator'' = Some (PStr operator)"
    and "operator \<in> {''>'', ''>='', ''<'', ''<=''}"
    and "map_of d ''value'' = Some (PBool b)"
  shows "normalize_filters (PDict d) =
           Inr ((if prefix ''meta.'' f then drop 5 f else f) @ '' '' @ operator @ '' ''
                @ (if b then ''true'' else ''false''))
     \<and> (\<forall>v. validate_range_value v =
            (if v = PNone \<or> isinstance_list v then Inl FilterError else Inr ()))"
proof -
  have compiled: "normalize_filters (PDict d) =
           Inr ((if prefix ''meta.'' f then drop 5 f else f) @ '' '' @ operator @ '' ''
                @ (if b then ''true'' else ''false''))"
    using assms(3) normalize_comparison_node [OF assms(1,2,4)]
    by (auto simp: COMPARISON_OPERATORS_simps greater_than_op_def greater_than_equal_op_def
        less_than_op_def less_than_equal_op_def validate_range_value_def format_value_simps)
  have validation: "\<forall>v. validate_range_value v =
            (if v = PNone \<or> isinstance_list v then Inl FilterError else Inr ())"
    by (simp add: validate_range_value_def)
  from compiled validation show ?thesis by blast
qed

theorem range_operator_boolean_witness:
  "normalize_filters (PDict [(''field'', PStr ''meta.active''), (''operator'', PStr ''>=''),
       (''value'', PBool True)]) = Inr ''active >= true''"
  using range_operator_boolean [of "[(''field'', PStr ''meta.active''), (''operator'', PStr ''>=''),
       (''value'', PBool True)]" "''meta.active''" "''>=''" True]
  by simp

text \<open>
  Claim C4. For a string value \<^verbatim>\<open>==\<close> emits \<^verbatim>\<open>field contains "<escaped>"\<close> and \<^verbatim>\<open>!=\<close> wraps the
  same fragment in \<^verbatim>\<open>!(...)\<close>; the fragment is never of the \<^verbatim>\<open>field = ...\<close> form. For a
  boolean, an integer and a finite float \<^verbatim>\<open>==\<close> emits \<^verbatim>\<open>field = <rendered>\<close> and \<^verbatim>\<open>!=\<close> emits
  \<^verbatim>\<open>!(field = <rendered>)\<close>. A comparison node whose operator is \<^verbatim>\<open>==\<close> or \<^verbatim>\<open>!=\<close> is compiled
  by these two formatters, applied to the field name without its \<^verbatim>\<open>meta.\<close> prefix.
\<close>

theorem string_equality_uses_contains:
  "equal_op field (PStr s) =
      Inr (field @ '' contains '' @ [dquote] @ escape_yql_string s @ [dquote])
   \<and> not_equal_op field (PStr s) =
      Inr (''!('' @ field @ '' contains '' @ [dquote] @ escape_yql_string s @ [dquote] @ '')'')
   \<and> equal_op field (PStr s) \<noteq> Inr (field @ '' = '' @ r)
   \<and> not_equal_op field (PStr s) \<noteq> Inr (''!('' @ field @ '' = '' @ r @ '')'')
   \<and> equal_op field (PBool b) = Inr (field @ '' = '' @ (if b then ''true'' else ''false''))
   \<and> equal_op field (PInt i) = Inr (field @ '' = '' @ str_int i)
   \<and> equal_op field (PFloat (Finite t)) = Inr (field @ '' = '' @ t)
   \<and> not_equal_op field (PBool b) = Inr (''!('' @ field @ '' = '' @ (if b then ''true'' else ''false'') @ '')'')
   \<and> not_equal_op field (PInt i) = Inr (''!('' @ field @ '' = '' @ str_int i @ '')'')
   \<and> not_equal_op field (PFloat (Finite t)) = Inr (''!('' @ field @ '' = '' @ t @ '')'')
   \<and> (\<forall>d f v. map_of d ''field'' = Some (PStr f) \<and> map_of d ''operator'' = Some (PStr ''=='')
          \<and> map_of d ''value'' = Some v
        \<longrightarrow> normalize_filters (PDict d) = equal_op (if prefix ''meta.'' f then drop 5 f else f) v)
   \<and> (\<forall>d f v. map_of d ''field'' = Some (PStr f) \<and> map_of d ''operator'' = Some (PStr ''!='')
          \<and> map_of d ''value'' = Some v
        \<longrightarrow> normalize_filters (PDict d) = not_equal_op (if prefix ''meta.'' f then drop 5 f else f) v)"
proof -
  have 1: "equal_op field (PStr s) =
      Inr (field @ '' contains '' @ [dquote] @ escape_yql_string s @ [dquote])"
    by (simp add: equal_op_def)
  have 2: "not_equal_op field (PStr s) =
      Inr (''!('' @ field @ '' contains '' @ [dquote] @ escape_yql_string s @ [dquote] @ '')'')"
    by (simp add: not_equal_op_def)
  have 3: "equal_op field (PStr s) \<noteq> Inr (field @ '' = '' @ r)"
    by (simp add: equal_op_def)
  have 4: "not_equal_op field (PStr s) \<noteq> Inr (''!('' @ field @ '' = '' @ r @ '')'')"
    by (simp add: not_equal_op_def)
  have 5: "equal_op field (PBool b) = Inr (field @ '' = '' @ (if b then ''true'' else ''false''))"
    "equal_op field (PInt i) = Inr (field @ '' = '' @ str_int i)"
    "equal_op field (PFloat (Finite t)) = Inr (field @ '' = '' @ t)"
    by (simp_all add: equal_op_def format_value_simps)
  have 6: "not_equal_op field (PBool b) = Inr (''!('' @ field @ '' = '' @ (if b then ''true'' else ''false'') @ '')'')"
    "not_equal_op field (PInt i) = Inr (''!('' @ field @ '' = '' @ str_int i @ '')'')"
    "not_equal_op field (PFloat (Finite t)) = Inr (''!('' @ field @ '' = '' @ t @ '')'')"
    by (simp_all add: not_equal_op_def format_value_simps)
  have 7: "\<forall>d f v. map_of d ''field'' = Some (PStr f) \<and> map_of d ''operator'' = Some (PStr ''=='')
          \<and> map_of d ''value'' = Some v
        \<longrightarrow> normalize_filters (PDict d) = equal_op (if prefix ''meta.'' f then drop 5 f else f) v"
    by (simp add: normalize_comparison_node COMPARISON_OPERATORS_simps)
  have 8: "\<forall>d f v. map_of d ''field'' = Some (PStr f) \<and> map_of d ''operator'' = Some (PStr ''!='')
          \<and> map_of d ''value'' = Some v
        \<longrightarrow> normalize_filters (PDict d) = not_equal_op (if prefix ''meta.'' f then drop 5 f else f) v"
    by (simp add: normalize_comparison_node COMPARISON_OPERATORS_simps)
  from 1 2 3 4 5 6 7 8 show ?thesis by blast
qed

theorem string_equality_uses_contains_witness:
  "normalize_filters (PDict [(''field'', PStr ''meta.type''), (''operator'', PStr ''==''),
       (''value'', PStr ''article'')]) = Inr (''type contains '' @ [dquote] @ ''article'' @ [dquote])
   \<and> normalize_filters (PDict [(''field'', PStr ''meta.age''), (''operator'', PStr ''!=''),
       (''value'', PInt 30)]) = Inr ''!(age = 30)''"
proof -
  let ?d1 = "[(''field'', PStr ''meta.type''), (''operator'', PStr ''==''), (''value'', PStr ''article'')]"
  let ?d2 = "[(''field'', PStr ''meta.age''), (''operator'', PStr ''!=''), (''value'', PInt 30)]"
  note inst = string_equality_uses_contains [of "''type''" "''article''" "[]" False 30 "''''"]
  note inst2 = string_equality_uses_contains [of "''age''" "''article''" "[]" False 30 "''''"]
  have a: "normalize_filters (PDict ?d1) = equal_op ''type'' (PStr ''article'')"
    using inst by simp
  have b: "normalize_filters (PDict ?d2) = not_equal_op ''age'' (PInt 30)"
    using inst by simp
  have c: "str_int 30 = ''30''" by code_simp
  have d: "escape_yql_string ''article'' = ''article''" by code_simp
  from a b c d inst inst2 show ?thesis by simp
qed

text \<open>
  Claim C5. A logical node with a non-empty list of conditions compiles its children from
  left to right and joins the fragments: \<^verbatim>\<open>AND\<close> with \<^verbatim>\<open> and \<close> inside one pair of
  parentheses, \<^verbatim>\<open>OR\<close> with \<^verbatim>\<open> or \<close>, \<^verbatim>\<open>NOT\<close> with \<^verbatim>\<open> and \<close> inside \<^verbatim>\<open>!(...)\<close>; any other operator
  raises \<^verbatim>\<open>FilterError\<close> once the children are compiled. There are as many fragments as
  conditions, the i-th fragment is the compilation of the i-th condition, and a child
  without a \<^verbatim>\<open>field\<close> key is itself compiled as a logical node.
\<close>

theorem logical_node_join:
  assumes "map_of d ''field'' = None"
    and "map_of d ''operator'' = Some opv"
    and "map_of d ''conditions'' = Some (PList (c # cs))"
  shows "normalize_filters (PDict d) =
       (case parse_conditions (c # cs) of
          Inl e \<Rightarrow> Inl e
        | Inr frags \<Rightarrow>
            if opv = PStr ''AND'' then Inr (''('' @ join '' and '' frags @ '')'')
            else if opv = PStr ''OR'' then Inr (''('' @ join '' or '' frags @ '')'')
            else if opv = PStr ''NOT'' then Inr (''!('' @ join '' and '' frags @ '')'')
            else Inl FilterError)
     \<and> parse_comparison_condition (PDict d) = normalize_filters (PDict d)
     \<and> (\<forall>frags. parse_conditions (c # cs) = Inr frags \<longrightarrow>
            length frags = length (c # cs)
            \<and> (\<forall>i < length (c # cs). parse_comparison_condition ((c # cs) ! i) = Inr (frags ! i)))
     \<and> (\<forall>child. py_in ''field'' child = Inr False \<longrightarrow>
            parse_comparison_condition child = parse_logical_condition child)"
proof -
  have top: "normalize_filters (PDict d) = parse_logical_condition (PDict d)"
    using assms(1) by (rule normalize_no_field)
  have nested: "parse_comparison_condition (PDict d) = parse_logical_condition (PDict d)"
    using assms(1) by (simp add: no_field_is_logical)
  have 1: "normalize_filters (PDict d) =
       (case parse_conditions (c # cs) of
          Inl e \<Rightarrow> Inl e
        | Inr frags \<Rightarrow>
            if opv = PStr ''AND'' then Inr (''('' @ join '' and '' frags @ '')'')
            else if opv = PStr ''OR'' then Inr (''('' @ join '' or '' frags @ '')'')
            else if opv = PStr ''NOT'' then Inr (''!('' @ join '' and '' frags @ '')'')
            else Inl FilterError)"
    unfolding top logical_node [OF assms(2,3)] by simp
  have 2: "parse_comparison_condition (PDict d) = normalize_filters (PDict d)"
    by (simp add: top nested)
  have 3: "\<forall>frags. parse_conditions (c # cs) = Inr frags \<longrightarrow>
            length frags = length (c # cs)
            \<and> (\<forall>i < length (c # cs). parse_comparison_condition ((c # cs) ! i) = Inr (frags ! i))"
    unfolding parse_conditions_list_all2 by (auto simp: list_all2_conv_all_nth)
  have 4: "\<forall>child. py_in ''field'' child = Inr False \<longrightarrow>
            parse_comparison_condition child = parse_logical_condition child"
    by (simp add: no_field_is_logical)
  from 1 2 3 4 show ?thesis by blast
qed

theorem logical_node_join_witness:
  "normalize_filters (PDict [(''operator'', PStr ''AND''), (''conditions'', PList
       [PDict [(''field'', PStr ''meta.date''), (''operator'', PStr ''>=''), (''value'', PStr ''2015-01-01'')],
        PDict [(''operator'', PStr ''OR''), (''conditions'', PList
          [PDict [(''field'', PStr ''meta.g''), (''operator'', PStr ''==''), (''value'', PStr ''x'')],
           PDict [(''field'', PStr ''meta.g''), (''operator'', PStr ''==''), (''value'', PStr ''y'')]])]])])
     = Inr (''(date >= '' @ [dquote] @ ''2015-01-01'' @ [dquote] @ '' and (g contains '' @ [dquote]
            @ ''x'' @ [dquote] @ '' or g contains '' @ [dquote] @ ''y'' @ [dquote] @ ''))'')"
proof -
  let ?x = "PDict [(''field'', PStr ''meta.g''), (''operator'', PStr ''==''), (''value'', PStr ''x'')]"
  let ?y = "PDict [(''field'', PStr ''meta.g''), (''operator'', PStr ''==''), (''value'', PStr ''y'')]"
  let ?date = "PDict [(''field'', PStr ''meta.date''), (''operator'', PStr ''>=''), (''value'', PStr ''2015-01-01'')]"
  let ?or = "[(''operator'', PStr ''OR''), (''conditions'', PList [?x, ?y])]"
  let ?and = "[(''operator'', PStr ''AND''), (''conditions'', PList [?date, PDict ?or])]"
  have x: "parse_comparison_condition ?x = Inr (''g contains '' @ [dquote] @ ''x'' @ [dquote])"
    by (simp add: comparison_node COMPARISON_OPERATORS_simps equal_op_def escape_yql_string_def
        replace_char_def)
  have y: "parse_comparison_condition ?y = Inr (''g contains '' @ [dquote] @ ''y'' @ [dquote])"
    by (simp add: comparison_node COMPARISON_OPERATORS_simps equal_op_def escape_yql_string_def
        replace_char_def)
  have date: "parse_comparison_condition ?date = Inr (''date >= '' @ [dquote] @ ''2015-01-01'' @ [dquote])"
    by (simp add: comparison_node COMPARISON_OPERATORS_simps greater_than_equal_op_def
        validate_range_value_def format_value_simps escape_yql_string_def replace_char_def)
  have inner: "parse_comparison_condition (PDict ?or) = normalize_filters (PDict ?or)"
    using logical_node_join [of ?or "PStr ''OR''" ?x "[?y]"] by simp
  have "normalize_filters (PDict ?or) =
      Inr (''(g contains '' @ [dquote] @ ''x'' @ [dquote] @ '' or g contains '' @ [dquote] @ ''y''
           @ [dquote] @ '')'')"
    using logical_node_join [of ?or "PStr ''OR''" ?x "[?y]"] by (simp add: x y)
  with inner have or: "parse_comparison_condition (PDict ?or) =
      Inr (''(g contains '' @ [dquote] @ ''x'' @ [dquote] @ '' or g contains '' @ [dquote] @ ''y''
           @ [dquote] @ '')'')"
    by simp
  show ?thesis
    using logical_node_join [of ?and "PStr ''AND''" ?date "[PDict ?or]"] by (simp add: date or)
qed

text \<open>
  Claim C6. The field name of a comparison node loses the prefix \<^verbatim>\<open>meta.\<close> when it starts
  with it, once (a second \<^verbatim>\<open>meta.\<close> behind the first stays), and is passed to the
  formatter unchanged when it does not start with it, also when \<^verbatim>\<open>meta.\<close> occurs further
  inside.
\<close>

theorem meta_prefix_stripping:
  assumes "map_of d ''field'' = Some (PStr f)"
    and "map_of d ''operator'' = Some (PStr operator)"
    and "map_of d ''value'' = Some v"
    and "COMPARISON_OPERATORS operator = Some formatter"
  shows "normalize_filters (PDict d) = formatter (if prefix ''meta.'' f then drop 5 f else f) v
    \<and> (\<forall>g. f = ''meta.'' @ g \<longrightarrow> normalize_filters (PDict d) = formatter g v)
    \<and> (\<not> prefix ''meta.'' f \<longrightarrow> normalize_filters (PDict d) = formatter f v)"
proof -
  have main: "normalize_filters (PDict d) = formatter (if prefix ''meta.'' f then drop 5 f else f) v"
    using normalize_comparison_node [OF assms(1-3)] assms(4) by simp
  have stripped: "\<forall>g. f = ''meta.'' @ g \<longrightarrow> normalize_filters (PDict d) = formatter g v"
    using main by simp
  have kept: "\<not> prefix ''meta.'' f \<longrightarrow> normalize_filters (PDict d) = formatter f v"
    using main by simp
  from main stripped kept show ?thesis by blast
qed

theorem meta_prefix_stripping_witness:
  "normalize_filters (PDict [(''field'', PStr ''meta.meta.x''), (''operator'', PStr ''>''),
       (''value'', PInt 1)]) = Inr ''meta.x > 1''
   \<and> normalize_filters (PDict [(''field'', PStr ''a.meta.x''), (''operator'', PStr ''>''),
       (''value'', PInt 1)]) = Inr ''a.meta.x > 1''"
proof -
  have one: "str_int 1 = ''1''" by code_simp
  have gt: "COMPARISON_OPERATORS ''>'' = Some greater_than_op"
    by (simp add: COMPARISON_OPERATORS_simps)
  have a: "normalize_filters (PDict [(''field'', PStr ''meta.meta.x''), (''operator'', PStr ''>''),
       (''value'', PInt 1)]) = greater_than_op ''meta.x'' (PInt 1)"
    using meta_prefix_stripping [of "[(''field'', PStr ''meta.meta.x''), (''operator'', PStr ''>''),
       (''value'', PInt 1)]" "''meta.meta.x''" "''>''" "PInt 1" greater_than_op] gt
    by simp
  have b: "normalize_filters (PDict [(''field'', PStr ''a.meta.x''), (''operator'', PStr ''>''),
       (''value'', PInt 1)]) = greater_than_op ''a.meta.x'' (PInt 1)"
    using meta_prefix_stripping [of "[(''field'', PStr ''a.meta.x''), (''operator'', PStr ''>''),
       (''value'', PInt 1)]" "''a.meta.x''" "''>''" "PInt 1" greater_than_op] gt
    by simp
  show ?thesis
    by (simp add: a b greater_than_op_def validate_range_value_def format_value_simps one)
qed

text \<open>
  Claim C1, evaluated on the code. \<^verbatim>\<open>_format_value\<close> rejects an infinite float, but the loop
  of \<^verbatim>\<open>_in\<close> prints list elements with \<^verbatim>\<open>str\<close> and has no such test: an infinity or a
  not-a-number inside an \<^verbatim>\<open>in\<close> or \<^verbatim>\<open>not in\<close> list is rendered into the output.
\<close>

theorem in_list_renders_infinity:
  "normalize_filters (PDict [(''field'', PStr ''meta.v''), (''operator'', PStr ''in''),
       (''value'', PList [PFloat (Inf False)])]) = Inr ''v in (inf)''
   \<and> normalize_filters (PDict [(''field'', PStr ''meta.v''), (''operator'', PStr ''not in''),
       (''value'', PList [PInt 1, PFloat NaN])]) = Inr ''!(v in (1, nan))''
   \<and> normalize_filters (PDict [(''field'', PStr ''meta.v''), (''operator'', PStr ''==''),
       (''value'', PFloat (Inf False))]) = Inl FilterError
   \<and> in_op field (PList [PFloat x]) = Inr (field @ '' in ('' @ str_float x @ '')'')
   \<and> format_value (PFloat (Inf negative)) = Inl FilterError
   \<and> format_value (PFloat NaN) = Inl FilterError"
proof -
  have one: "str_int 1 = ''1''" by code_simp
  have evaluated:
    "normalize_filters (PDict [(''field'', PStr ''meta.v''), (''operator'', PStr ''in''),
       (''value'', PList [PFloat (Inf False)])]) = Inr ''v in (inf)''"
    "normalize_filters (PDict [(''field'', PStr ''meta.v''), (''operator'', PStr ''not in''),
       (''value'', PList [PInt 1, PFloat NaN])]) = Inr ''!(v in (1, nan))''"
    "normalize_filters (PDict [(''field'', PStr ''meta.v''), (''operator'', PStr ''==''),
       (''value'', PFloat (Inf False))]) = Inl FilterError"
    by (simp_all add: normalize_comparison_node COMPARISON_OPERATORS_simps in_op_def
        not_in_op_def equal_op_def format_value_simps one)
  have any_float: "in_op field (PList [PFloat x]) = Inr (field @ '' in ('' @ str_float x @ '')'')"
    by (simp add: in_op_def)
  have scalar: "format_value (PFloat (Inf negative)) = Inl FilterError"
    "format_value (PFloat NaN) = Inl FilterError"
    by (simp_all add: format_value_simps)
  from evaluated any_float scalar show ?thesis by blast
qed

text \<open>
  Claim C2, evaluated on the code. \<^verbatim>\<open>normalize_filters\<close> tests that its argument is a
  dictionary, but the children of a logical node are not tested: a child that is an
  integer makes \<^verbatim>\<open>"field" not in condition\<close> raise \<^verbatim>\<open>TypeError\<close>, and a field name
  that is not a string makes \<^verbatim>\<open>field.startswith\<close> raise \<^verbatim>\<open>AttributeError\<close>.
\<close>

theorem nested_child_type_error:
  "normalize_filters (PDict [(''operator'', PStr ''AND''), (''conditions'', PList [PInt 5])])
     = Inl TypeError
   \<and> normalize_filters (PDict [(''field'', PInt 5), (''operator'', PStr ''==''), (''value'', PInt 1)])
     = Inl AttributeError
   \<and> normalize_filters (PInt 5) = Inl FilterError"
  by (simp add: normalize_filters_def parse_logical_condition.simps
      parse_comparison_condition.simps)

text \<open>
  Claim C7 as it is written says that \<^verbatim>\<open>FilterError\<close> is raised exactly in the cases it
  lists. The code raises it in other cases too, by design: a comparison node with an
  unknown operator (\<^verbatim>\<open>operator not in COMPARISON_OPERATORS\<close>), a comparison node without a
  \<^verbatim>\<open>value\<close> key, a logical node with an unknown operator, and an unsupported element in an
  \<^verbatim>\<open>in\<close> list are none of the listed cases and raise \<^verbatim>\<open>FilterError\<close>.
\<close>

theorem filter_error_outside_listed_cases:
  "normalize_filters (PDict [(''field'', PStr ''meta.type''), (''operator'', PStr ''~=''),
       (''value'', PStr ''article'')]) = Inl FilterError
   \<and> \<not> listed_violation (PDict [(''field'', PStr ''meta.type''), (''operator'', PStr ''~=''),
       (''value'', PStr ''article'')])
   \<and> normalize_filters (PDict [(''field'', PStr ''meta.type''), (''operator'', PStr ''=='')])
       = Inl FilterError
   \<and> \<not> listed_violation (PDict [(''field'', PStr ''meta.type''), (''operator'', PStr ''=='')])
   \<and> normalize_filters (PDict [(''operator'', PStr ''XOR''), (''conditions'', PList
         [PDict [(''field'', PStr ''n''), (''operator'', PStr ''==''), (''value'', PBool True)]])])
       = Inl FilterError
   \<and> \<not> listed_violation (PDict [(''operator'', PStr ''XOR''), (''conditions'', PList
         [PDict [(''field'', PStr ''n''), (''operator'', PStr ''==''), (''value'', PBool True)]])])
   \<and> \<not> listed_violation
         (PDict [(''field'', PStr ''n''), (''operator'', PStr ''==''), (''value'', PBool True)])
   \<and> normalize_filters (PDict [(''field'', PStr ''meta.data''), (''operator'', PStr ''in''),
         (''value'', PList [PDict [(''nested'', PBool True)]])]) = Inl FilterError
   \<and> \<not> listed_violation (PDict [(''field'', PStr ''meta.data''), (''operator'', PStr ''in''),
         (''value'', PList [PDict [(''nested'', PBool True)]])])"
  by (simp add: normalize_filters_def parse_comparison_condition.simps
      parse_logical_condition.simps COMPARISON_OPERATORS_def equal_op_def in_op_def
      format_value_simps)

text \<open>
  Claim C7, amended: each of these precondition violations raises \<^verbatim>\<open>FilterError\<close> (they are
  not the only inputs that do): a logical node with an empty list of conditions (at the
  top level and as a child); \<^verbatim>\<open>None\<close> under \<^verbatim>\<open>==\<close>, \<^verbatim>\<open>!=\<close> and the four range operators; a
  list under a range operator; a value that is not a list under \<^verbatim>\<open>in\<close> and \<^verbatim>\<open>not in\<close>; an
  empty list under \<^verbatim>\<open>in\<close> and \<^verbatim>\<open>not in\<close>. So a fragment of \<^verbatim>\<open>_in\<close> lists one item for every
  element of a non-empty list and is not \<^verbatim>\<open>field in ()\<close> (the printed text of a finite float
  being non-empty, as that of \<^verbatim>\<open>str\<close> is), and a logical node never compiles to \<^verbatim>\<open>()\<close> or
  \<^verbatim>\<open>!()\<close>.
\<close>

theorem precondition_violations:
  "(\<forall>d. map_of d ''field'' = None \<and> map_of d ''conditions'' = Some (PList [])
      \<longrightarrow> normalize_filters (PDict d) = Inl FilterError
          \<and> parse_comparison_condition (PDict d) = Inl FilterError)
   \<and> equal_op field PNone = Inl FilterError
   \<and> not_equal_op field PNone = Inl FilterError
   \<and> greater_than_op field PNone = Inl FilterError
   \<and> greater_than_equal_op field PNone = Inl FilterError
   \<and> less_than_op field PNone = Inl FilterError
   \<and> less_than_equal_op field PNone = Inl FilterError
   \<and> greater_than_op field (PList xs) = Inl FilterError
   \<and> greater_than_equal_op field (PList xs) = Inl FilterError
   \<and> less_than_op field (PList xs) = Inl FilterError
   \<and> less_than_equal_op field (PList xs) = Inl FilterError
   \<and> (\<not> isinstance_list v \<longrightarrow> in_op field v = Inl FilterError \<and> not_in_op field v = Inl FilterError)
   \<and> in_op field (PList []) = Inl FilterError
   \<and> not_in_op field (PList []) = Inl FilterError
   \<and> (\<forall>out. in_op field v = Inr out \<longrightarrow>
         (\<exists>items. items \<noteq> [] \<and> length items = length (list_of_val v)
            \<and> out = field @ '' in ('' @ join '', '' items @ '')''))
   \<and> (\<forall>out. in_op field v = Inr out
          \<and> (\<forall>t. PFloat (Finite t) \<in> set (list_of_val v) \<longrightarrow> t \<noteq> [])
        \<longrightarrow> out \<noteq> field @ '' in ()'')
   \<and> (\<forall>c out. parse_logical_condition c = Inr out \<longrightarrow> out \<noteq> ''()'' \<and> out \<noteq> ''!()'')"
proof -
  have empty_conditions: "\<forall>d. map_of d ''field'' = None \<and> map_of d ''conditions'' = Some (PList [])
      \<longrightarrow> normalize_filters (PDict d) = Inl FilterError
          \<and> parse_comparison_condition (PDict d) = Inl FilterError"
    by (auto simp: normalize_no_field no_field_is_logical parse_logical_condition.simps
        split: option.splits)
  have none_value: "equal_op field PNone = Inl FilterError"
    "not_equal_op field PNone = Inl FilterError"
    "greater_than_op field PNone = Inl FilterError"
    "greater_than_equal_op field PNone = Inl FilterError"
    "less_than_op field PNone = Inl FilterError"
    "less_than_equal_op field PNone = Inl FilterError"
    by (simp_all add: equal_op_def not_equal_op_def greater_than_op_def
        greater_than_equal_op_def less_than_op_def less_than_equal_op_def
        validate_range_value_def)
  have list_value: "greater_than_op field (PList xs) = Inl FilterError"
    "greater_than_equal_op field (PList xs) = Inl FilterError"
    "less_than_op field (PList xs) = Inl FilterError"
    "less_than_equal_op field (PList xs) = Inl FilterError"
    by (simp_all add: greater_than_op_def greater_than_equal_op_def less_than_op_def
        less_than_equal_op_def validate_range_value_def)
  have non_list: "\<not> isinstance_list v \<longrightarrow>
      in_op field v = Inl FilterError \<and> not_in_op field v = Inl FilterError"
    by (simp add: in_op_def not_in_op_def)
  have empty_list: "in_op field (PList []) = Inl FilterError"
    "not_in_op field (PList []) = Inl FilterError"
    by (simp_all add: in_op_def not_in_op_def)
  have in_items: "\<forall>out. in_op field v = Inr out \<longrightarrow>
         (\<exists>items. items \<noteq> [] \<and> length items = length (list_of_val v)
            \<and> out = field @ '' in ('' @ join '', '' items @ '')'')"
    using in_op_Inr by blast
  have in_fragment: "\<forall>out. in_op field v = Inr out
          \<and> (\<forall>t. PFloat (Finite t) \<in> set (list_of_val v) \<longrightarrow> t \<noteq> [])
        \<longrightarrow> out \<noteq> field @ '' in ()''"
    using in_op_no_empty_list by blast
  have group: "\<forall>c out. parse_logical_condition c = Inr out \<longrightarrow> out \<noteq> ''()'' \<and> out \<noteq> ''!()''"
    using parse_logical_condition_no_empty_group by blast
  from empty_conditions none_value list_value non_list empty_list in_items in_fragment group
  show ?thesis by blast
qed

theorem precondition_violations_witness:
  "normalize_filters (PDict [(''operator'', PStr ''AND''), (''conditions'', PList [])])
     = Inl FilterError
   \<and> in_op ''status'' (PStr ''open'') = Inl FilterError
   \<and> in_op ''code'' (PList [PInt 1, PInt 2]) = Inr ''code in (1, 2)''
   \<and> ''code in (1, 2)'' \<noteq> ''code in ()''
   \<and> parse_logical_condition (PDict [(''operator'', PStr ''NOT''), (''conditions'',
        PList [PDict [(''field'', PStr ''n''), (''operator'', PStr ''==''), (''value'', PInt 1)]])])
      = Inr ''!(n = 1)''"
proof -
  note inst = precondition_violations [of "''status''" "[]" "PStr ''open''"]
  note inst2 = precondition_violations [of "''code''" "[]" "PList [PInt 1, PInt 2]"]
  have one: "str_int 1 = ''1''" and two: "str_int 2 = ''2''" by code_simp+
  have a: "normalize_filters (PDict [(''operator'', PStr ''AND''), (''conditions'', PList [])])
     = Inl FilterError"
    using inst by simp
  have b: "in_op ''status'' (PStr ''open'') = Inl FilterError"
    using inst by simp
  have c: "in_op ''code'' (PList [PInt 1, PInt 2]) = Inr ''code in (1, 2)''"
    by (simp add: in_op_def one two)
  have d: "''code in (1, 2)'' \<noteq> ''code in ()''"
    using inst2 c by simp
  have e: "parse_logical_condition (PDict [(''operator'', PStr ''NOT''), (''conditions'',
        PList [PDict [(''field'', PStr ''n''), (''operator'', PStr ''==''), (''value'', PInt 1)]])])
      = Inr ''!(n = 1)''"
    by (simp add: logical_node comparison_node COMPARISON_OPERATORS_simps equal_op_def
        format_value_simps one)
  from a b c d e show ?thesis by blast
qed

section \<open>The compiler over a store\<close>

text \<open>
  The tree model above cannot say that the call leaves its argument alone: a HOL value
  cannot be mutated. Here the lists and dictionaries of Python live in a store, at
  addresses, and a value refers to them (two values may refer to the same object); strings
  and numbers are immutable and stay values. The store is the list of the objects
  allocated so far: an address is an index, and allocation appends.
\<close>

datatype hval = HNone | HBool bool | HInt int | HFloat pyfloat | HStr string | HRef nat

datatype hobj = HList "hval list" | HDict "(string \<times> hval) list"

type_synonym heap = "hobj list"

text \<open>The object at an address; an address outside the store does not occur in Python.\<close>

definition deref :: "heap \<Rightarrow> nat \<Rightarrow> hobj option" where
  "deref h a = (if a < length h then Some (h ! a) else None)"

text \<open>
  What \<^verbatim>\<open>isinstance\<close>, \<^verbatim>\<open>is None\<close> and \<^verbatim>\<open>str\<close> see of a value without reading a container: the
  value itself for a scalar, and the kind of the object for a reference.
\<close>

fun shallow :: "heap \<Rightarrow> hval \<Rightarrow> pyval" where
  "shallow h HNone = PNone"
| "shallow h (HBool b) = PBool b"
| "shallow h (HInt i) = PInt i"
| "shallow h (HFloat x) = PFloat x"
| "shallow h (HStr s) = PStr s"
| "shallow h (HRef a) =
     (case deref h a of
        Some (HList xs) \<Rightarrow> PList []
      | Some (HDict d) \<Rightarrow> PDict []
      | None \<Rightarrow> PNone)"

text \<open>The built-in operations on containers, reading the store.\<close>

fun h_in :: "string \<Rightarrow> heap \<Rightarrow> hval \<Rightarrow> bool result" where
  "h_in key h (HStr s) = Inr (str_contains key s)"
| "h_in key h (HRef a) =
     (case deref h a of
        Some (HDict d) \<Rightarrow> Inr (map_of d key \<noteq> None)
      | Some (HList xs) \<Rightarrow> Inr (HStr key \<in> set xs)
      | None \<Rightarrow> Inl TypeError)"
| "h_in key h _ = Inl TypeError"

fun h_getitem :: "heap \<Rightarrow> hval \<Rightarrow> string \<Rightarrow> hval result" where
  "h_getitem h (HRef a) key =
     (case deref h a of
        Some (HDict d) \<Rightarrow> (case map_of d key of Some v \<Rightarrow> Inr v | None \<Rightarrow> Inl KeyError)
      | _ \<Rightarrow> Inl TypeError)"
| "h_getitem h _ key = Inl TypeError"

fun h_truthy :: "heap \<Rightarrow> hval \<Rightarrow> bool" where
  "h_truthy h (HRef a) =
     (case deref h a of
        Some (HList xs) \<Rightarrow> xs \<noteq> []
      | Some (HDict d) \<Rightarrow> d \<noteq> []
      | None \<Rightarrow> False)"
| "h_truthy h v = py_truthy (shallow h v)"

fun h_iter :: "heap \<Rightarrow> hval \<Rightarrow> hval list result" where
  "h_iter h (HStr s) = Inr (map (\<lambda>c. HStr [c]) s)"
| "h_iter h (HRef a) =
     (case deref h a of
        Some (HList xs) \<Rightarrow> Inr xs
      | Some (HDict d) \<Rightarrow> Inr (map (\<lambda>kv. HStr (fst kv)) d)
      | None \<Rightarrow> Inl TypeError)"
| "h_iter h _ = Inl TypeError"

text \<open>\<^verbatim>\<open>xs.append(x)\<close>, the one mutation the code performs: the list at the address is
  replaced by the longer one, in place. \<open>list_strings\<close> reads back a list of strings, as
  \<^verbatim>\<open>join\<close> does.\<close>

definition list_append :: "heap \<Rightarrow> nat \<Rightarrow> hval \<Rightarrow> heap" where
  "list_append h a x =
     (case deref h a of
        Some (HList xs) \<Rightarrow> h[a := HList (xs @ [x])]
      | _ \<Rightarrow> h)"

definition list_strings :: "heap \<Rightarrow> nat \<Rightarrow> string list" where
  "list_strings h a =
     (case deref h a of
        Some (HList xs) \<Rightarrow> map (\<lambda>x. str_of (shallow h x)) xs
      | _ \<Rightarrow> [])"

text \<open>
  Six of the eight formatters look at the type and the text of the value only
  (\<^verbatim>\<open>_equal\<close>, \<^verbatim>\<open>_not_equal\<close> and the four range formatters): they read no container and
  write nothing, and are the formatters of the tree model applied to what \<open>shallow\<close> sees.
\<close>

definition read_only ::
  "(string \<Rightarrow> pyval \<Rightarrow> string result) \<Rightarrow> heap \<Rightarrow> string \<Rightarrow> hval \<Rightarrow> heap \<times> string result" where
  "read_only formatter h field value = (h, formatter field (shallow h value))"

text \<open>
  \<^verbatim>\<open>_in\<close> allocates the list \<^verbatim>\<open>formatted_values\<close> and appends to it in its loop; the loop
  visits the elements the list had when the loop began.
\<close>

fun h_in_loop :: "heap \<Rightarrow> nat \<Rightarrow> hval list \<Rightarrow> heap \<times> unit result" where
  "h_in_loop h formatted_values [] = (h, Inr ())"
| "h_in_loop h formatted_values (v # vs) =
     (if isinstance_str (shallow h v) then
        h_in_loop (list_append h formatted_values
          (HStr ([squote] @ replace_char squote [backslash, squote]
                   (replace_char backslash [backslash, backslash] (str_of (shallow h v)))
                 @ [squote]))) formatted_values vs
      else if isinstance_bool (shallow h v) then
        h_in_loop (list_append h formatted_values
          (HStr (if py_truthy (shallow h v) then ''true'' else ''false''))) formatted_values vs
      else if isinstance_int_float (shallow h v) then
        h_in_loop (list_append h formatted_values (HStr (str_num (shallow h v))))
          formatted_values vs
      else (h, Inl FilterError))"

definition h_in_op :: "heap \<Rightarrow> string \<Rightarrow> hval \<Rightarrow> heap \<times> string result" where
  "h_in_op h field value =
     (if \<not> isinstance_list (shallow h value) then (h, Inl FilterError)
      else if \<not> h_truthy h value then (h, Inl FilterError)
      else case h_iter h value of
        Inl e \<Rightarrow> (h, Inl e)
      | Inr items \<Rightarrow>
          (case h_in_loop (h @ [HList []]) (length h) items of
             (h', Inl e) \<Rightarrow> (h', Inl e)
           | (h', Inr _) \<Rightarrow>
               (h', Inr (field @ '' in ('' @ join '', '' (list_strings h' (length h)) @ '')''))))"

definition h_not_in_op :: "heap \<Rightarrow> string \<Rightarrow> hval \<Rightarrow> heap \<times> string result" where
  "h_not_in_op h field value =
     (if \<not> isinstance_list (shallow h value) then (h, Inl FilterError)
      else case h_in_op h field value of
             (h', Inl e) \<Rightarrow> (h', Inl e)
           | (h', Inr inner) \<Rightarrow> (h', Inr (''!('' @ inner @ '')'')))"

text \<open>The table \<^verbatim>\<open>COMPARISON_OPERATORS\<close> and the lookup in it.\<close>

definition h_COMPARISON_OPERATORS ::
  "string \<rightharpoonup> (heap \<Rightarrow> string \<Rightarrow> hval \<Rightarrow> heap \<times> string result)" where
  "h_COMPARISON_OPERATORS = map_of
     [(''=='', read_only equal_op),
      (''!='', read_only not_equal_op),
      (''>'', read_only greater_than_op),
      (''>='', read_only greater_than_equal_op),
      (''<'', read_only less_than_op),
      (''<='', read_only less_than_equal_op),
      (''in'', h_in_op),
      (''not in'', h_not_in_op)]"

fun h_lookup_operator ::
  "hval \<Rightarrow> (heap \<Rightarrow> string \<Rightarrow> hval \<Rightarrow> heap \<times> string result) option result" where
  "h_lookup_operator (HStr operator) = Inr (h_COMPARISON_OPERATORS operator)"
| "h_lookup_operator (HRef _) = Inl TypeError"
| "h_lookup_operator _ = Inr None"

text \<open>
  The recursion over the store. An object may contain itself, so the recursion is bounded
  by the depth the interpreter allows: the first argument is the number of frames left,
  and \<^verbatim>\<open>RecursionError\<close> is raised when none is. The list comprehension of
  \<^verbatim>\<open>_parse_logical_condition\<close> allocates the list \<^verbatim>\<open>conditions\<close> and appends every compiled
  child to it; \<open>h_parse_conditions\<close> is its loop.
\<close>

fun h_parse_logical_condition :: "nat \<Rightarrow> heap \<Rightarrow> hval \<Rightarrow> heap \<times> string result"
  and h_parse_comparison_condition :: "nat \<Rightarrow> heap \<Rightarrow> hval \<Rightarrow> heap \<times> string result"
  and h_parse_conditions :: "nat \<Rightarrow> heap \<Rightarrow> nat \<Rightarrow> hval list \<Rightarrow> heap \<times> unit result"
where
  "h_parse_logical_condition 0 h condition = (h, Inl RecursionError)"
| "h_parse_logical_condition (Suc n) h condition =
     (case h_in ''operator'' h condition of
        Inl e \<Rightarrow> (h, Inl e)
      | Inr has_operator \<Rightarrow>
     if \<not> has_operator then (h, Inl FilterError) else
     (case h_in ''conditions'' h condition of
        Inl e \<Rightarrow> (h, Inl e)
      | Inr has_conditions \<Rightarrow>
     if \<not> has_conditions then (h, Inl FilterError) else
     (case h_getitem h condition ''operator'' of
        Inl e \<Rightarrow> (h, Inl e)
      | Inr operator \<Rightarrow>
     (case h_getitem h condition ''conditions'' of
        Inl e \<Rightarrow> (h, Inl e)
      | Inr children \<Rightarrow>
     if \<not> h_truthy h children then (h, Inl FilterError) else
     (case h_iter h children of
        Inl e \<Rightarrow> (h, Inl e)
      | Inr items \<Rightarrow>
     (case h_parse_conditions n (h @ [HList []]) (length h) items of
        (h', Inl e) \<Rightarrow> (h', Inl e)
      | (h', Inr _) \<Rightarrow>
     if operator = HStr ''AND'' then
       (h', Inr (''('' @ join '' and '' (list_strings h' (length h)) @ '')''))
     else if operator = HStr ''OR'' then
       (h', Inr (''('' @ join '' or '' (list_strings h' (length h)) @ '')''))
     else if operator = HStr ''NOT'' then
       (h', Inr (''!('' @ join '' and '' (list_strings h' (length h)) @ '')''))
     else (h', Inl FilterError)))))))"
| "h_parse_comparison_condition 0 h condition = (h, Inl RecursionError)"
| "h_parse_comparison_condition (Suc n) h condition =
     (case h_in ''field'' h condition of
        Inl e \<Rightarrow> (h, Inl e)
      | Inr has_field \<Rightarrow>
     if \<not> has_field then h_parse_logical_condition n h condition else
     (case h_getitem h condition ''field'' of
        Inl e \<Rightarrow> (h, Inl e)
      | Inr field0 \<Rightarrow>
     (case py_startswith (shallow h field0) ''meta.'' of
        Inl e \<Rightarrow> (h, Inl e)
      | Inr has_prefix \<Rightarrow>
     let field = (if has_prefix then drop 5 (str_of (shallow h field0))
                  else str_of (shallow h field0)) in
     (case h_in ''operator'' h condition of
        Inl e \<Rightarrow> (h, Inl e)
      | Inr has_operator \<Rightarrow>
     if \<not> has_operator then (h, Inl FilterError) else
     (case h_in ''value'' h condition of
        Inl e \<Rightarrow> (h, Inl e)
      | Inr has_value \<Rightarrow>
     if \<not> has_value then (h, Inl FilterError) else
     (case h_getitem h condition ''operator'' of
        Inl e \<Rightarrow> (h, Inl e)
      | Inr operator \<Rightarrow>
     (case h_getitem h condition ''value'' of
        Inl e \<Rightarrow> (h, Inl e)
      | Inr value \<Rightarrow>
     (case h_lookup_operator operator of
        Inl e \<Rightarrow> (h, Inl e)
      | Inr None \<Rightarrow> (h, Inl FilterError)
      | Inr (Some formatter) \<Rightarrow> formatter h field value))))))))"
| "h_parse_conditions n h conditions [] = (h, Inr ())"
| "h_parse_conditions n h conditions (c # cs) =
     (case h_parse_comparison_condition n h c of
        (h', Inl e) \<Rightarrow> (h', Inl e)
      | (h', Inr fragment) \<Rightarrow>
          h_parse_conditions n (list_append h' conditions (HStr fragment)) conditions cs)"

definition h_normalize_filters :: "nat \<Rightarrow> heap \<Rightarrow> hval \<Rightarrow> heap \<times> string result" where
  "h_normalize_filters n h filters =
     (if \<not> isinstance_dict (shallow h filters) then (h, Inl FilterError)
      else case h_in ''field'' h filters of
             Inl e \<Rightarrow> (h, Inl e)
           | Inr has_field \<Rightarrow>
               if has_field then h_parse_comparison_condition n h filters
               else h_parse_logical_condition n h filters)"

text \<open>
  The tree a value stands for in a store, read to a given depth: \<open>None\<close> when the value
  is deeper than that (or refers to itself).
\<close>

fun reify :: "nat \<Rightarrow> heap \<Rightarrow> hval \<Rightarrow> pyval option" where
  "reify n h HNone = Some PNone"
| "reify n h (HBool b) = Some (PBool b)"
| "reify n h (HInt i) = Some (PInt i)"
| "reify n h (HFloat x) = Some (PFloat x)"
| "reify n h (HStr s) = Some (PStr s)"
| "reify 0 h (HRef a) = None"
| "reify (Suc n) h (HRef a) =
     (case deref h a of
        None \<Rightarrow> None
      | Some (HList xs) \<Rightarrow> map_option PList (those (map (reify n h) xs))
      | Some (HDict d) \<Rightarrow>
          map_option PDict (those (map (\<lambda>kv. map_option (Pair (fst kv)) (reify n h (snd kv))) d)))"

subsection \<open>The compiler writes to fresh lists only\<close>

lemma list_append_length: "length (list_append h a x) = length h"
  by (simp add: list_append_def split: option.splits hobj.splits)

lemma list_append_prefix:
  assumes "prefix h0 h" and "length h0 \<le> a"
  shows "prefix h0 (list_append h a x)"
proof -
  from assms(1) obtain ys where h: "h = h0 @ ys" by (auto simp: prefix_def)
  show ?thesis
    using assms(2) by (simp add: list_append_def h list_update_append split: option.splits hobj.splits)
qed

lemma h_in_loop_frame:
  "h_in_loop h a vs = (h', r) \<Longrightarrow> prefix h0 h \<Longrightarrow> length h0 \<le> a \<Longrightarrow> prefix h0 h'"
proof (induction vs arbitrary: h)
  case Nil
  then show ?case by simp
next
  case (Cons v vs)
  show ?case
    using Cons.prems Cons.IH [OF _ list_append_prefix [OF Cons.prems(2,3)] Cons.prems(3)]
    by (auto split: if_splits)
qed

lemma h_in_op_frame: "h_in_op h field v = (h', r) \<Longrightarrow> prefix h h'"
  by (auto simp: h_in_op_def split: if_splits sum.splits prod.splits
      dest!: h_in_loop_frame [where ?h0.0 = h])

lemma h_not_in_op_frame: "h_not_in_op h field v = (h', r) \<Longrightarrow> prefix h h'"
  by (auto simp: h_not_in_op_def split: if_splits sum.splits prod.splits dest: h_in_op_frame)

lemma h_formatter_cases:
  assumes "h_COMPARISON_OPERATORS operator = Some formatter"
  shows "formatter \<in> {read_only equal_op, read_only not_equal_op, read_only greater_than_op,
           read_only greater_than_equal_op, read_only less_than_op, read_only less_than_equal_op,
           h_in_op, h_not_in_op}"
  using assms by (auto simp: h_COMPARISON_OPERATORS_def split: if_splits)

lemma h_lookup_operator_Some:
  "h_lookup_operator x = Inr (Some formatter) \<Longrightarrow>
     \<exists>operator. x = HStr operator \<and> h_COMPARISON_OPERATORS operator = Some formatter"
  by (cases x) auto

lemma h_formatter_frame:
  assumes "h_COMPARISON_OPERATORS operator = Some formatter" and "formatter h field v = (h', r)"
  shows "prefix h h'"
  using h_formatter_cases [OF assms(1)] assms(2)
  by (auto simp: read_only_def dest: h_in_op_frame h_not_in_op_frame)

lemma h_parse_conditions_frame_step:
  assumes cmp: "\<And>h c h' r. h_parse_comparison_condition n h c = (h', r) \<Longrightarrow> prefix h h'"
  shows "h_parse_conditions n h a items = (h', r) \<Longrightarrow> prefix h0 h \<Longrightarrow> length h0 \<le> a
         \<Longrightarrow> prefix h0 h'"
proof (induction items arbitrary: h)
  case Nil
  then show ?case by simp
next
  case (Cons c cs)
  obtain h1 r1 where c: "h_parse_comparison_condition n h c = (h1, r1)" by force
  from cmp [OF c] Cons.prems(2) have p1: "prefix h0 h1" by (rule prefix_order.trans [rotated])
  show ?case
  proof (cases r1)
    case (Inl e)
    with c Cons.prems(1) p1 show ?thesis by simp
  next
    case (Inr fragment)
    with c Cons.prems(1) have
      "h_parse_conditions n (list_append h1 a (HStr fragment)) a cs = (h', r)" by simp
    from Cons.IH [OF this list_append_prefix [OF p1 Cons.prems(3)] Cons.prems(3)]
    show ?thesis .
  qed
qed

lemma h_parse_frame:
  "(\<forall>h c h' r. h_parse_logical_condition n h c = (h', r) \<longrightarrow> prefix h h')
   \<and> (\<forall>h c h' r. h_parse_comparison_condition n h c = (h', r) \<longrightarrow> prefix h h')"
proof (induction n)
  case 0
  show ?case by simp
next
  case (Suc n)
  then have cmp: "\<And>h c h' r. h_parse_comparison_condition n h c = (h', r) \<Longrightarrow> prefix h h'"
    and lgc: "\<And>h c h' r. h_parse_logical_condition n h c = (h', r) \<Longrightarrow> prefix h h'"
    by blast+
  have conds: "\<And>h items h' r. h_parse_conditions n (h @ [HList []]) (length h) items = (h', r)
      \<Longrightarrow> prefix h h'"
    by (rule h_parse_conditions_frame_step [OF cmp]) auto
  have 1: "\<forall>h c h' r. h_parse_logical_condition (Suc n) h c = (h', r) \<longrightarrow> prefix h h'"
    by (auto split: sum.splits if_splits prod.splits dest: conds)
  have 2: "\<forall>h c h' r. h_parse_comparison_condition (Suc n) h c = (h', r) \<longrightarrow> prefix h h'"
    by (auto simp: Let_def split: sum.splits if_splits option.splits
        dest: lgc h_formatter_frame dest!: h_lookup_operator_Some)
  from 1 2 show ?case by blast
qed

lemma h_normalize_filters_frame: "h_normalize_filters n h v = (h', r) \<Longrightarrow> prefix h h'"
  using h_parse_frame [of n]
  by (fastforce simp: h_normalize_filters_def split: if_splits sum.splits)

lemma those_map_Some:
  "(those (map f xs) = Some ys) = list_all2 (\<lambda>x y. f x = Some y) xs ys"
proof (induction xs arbitrary: ys)
  case Nil
  show ?case by auto
next
  case (Cons x xs)
  show ?case
    by (cases ys) (auto simp: Cons.IH split: option.splits)
qed

lemma deref_prefix: "prefix h h' \<Longrightarrow> deref h a = Some obj \<Longrightarrow> deref h' a = Some obj"
  by (auto simp: deref_def prefix_def nth_append split: if_splits)

lemma reify_scalar: "\<forall>a. v \<noteq> HRef a \<Longrightarrow> reify m h v = Some (shallow h v)"
  by (cases v) auto

lemma reify_HRef_0: "reify 0 h v = Some t \<Longrightarrow> \<forall>a. v \<noteq> HRef a"
  by (cases v) auto

lemma reify_HRef:
  assumes r: "reify m h (HRef a) = Some t"
  shows "\<exists>k. m = Suc k \<and>
       ((\<exists>xs ts. deref h a = Some (HList xs) \<and> t = PList ts
            \<and> list_all2 (\<lambda>x y. reify k h x = Some y) xs ts)
        \<or> (\<exists>d td. deref h a = Some (HDict d) \<and> t = PDict td
            \<and> list_all2 (\<lambda>kv kt. fst kt = fst kv \<and> reify k h (snd kv) = Some (snd kt)) d td))"
proof (cases m)
  case 0
  with r show ?thesis by simp
next
  case (Suc k)
  show ?thesis
  proof (cases "deref h a")
    case None
    with r Suc show ?thesis by simp
  next
    case (Some obj)
    show ?thesis
    proof (cases obj)
      case (HList xs)
      with r Suc Some show ?thesis by (auto simp: those_map_Some)
    next
      case (HDict d)
      with r Suc Some obtain td where t: "t = PDict td"
        and l: "list_all2 (\<lambda>kv kt. map_option (Pair (fst kv)) (reify k h (snd kv)) = Some kt) d td"
        by (auto simp: those_map_Some)
      from l have "list_all2 (\<lambda>kv kt. fst kt = fst kv \<and> reify k h (snd kv) = Some (snd kt)) d td"
        by (rule list_all2_mono) auto
      with Suc Some HDict t show ?thesis by auto
    qed
  qed
qed

lemma reify_mono: "reify m h v = Some t \<Longrightarrow> reify (Suc m) h v = Some t"
proof (induction m arbitrary: v t)
  case 0
  then show ?case by (cases v) auto
next
  case (Suc m)
  show ?case
  proof (cases v)
    case (HRef a)
    show ?thesis
    proof (cases "deref h a")
      case None
      with Suc.prems HRef show ?thesis by simp
    next
      case (Some obj)
      show ?thesis
      proof (cases obj)
        case (HList xs)
        with Suc.prems HRef Some obtain ts where t: "t = PList ts"
          and l: "list_all2 (\<lambda>x y. reify m h x = Some y) xs ts"
          by (auto simp: those_map_Some)
        from l have "list_all2 (\<lambda>x y. reify (Suc m) h x = Some y) xs ts"
          by (rule list_all2_mono) (rule Suc.IH)
        then have "those (map (reify (Suc m) h) xs) = Some ts"
          by (simp add: those_map_Some)
        with HRef Some HList t show ?thesis by simp
      next
        case (HDict d)
        with Suc.prems HRef Some obtain td where t: "t = PDict td"
          and l: "list_all2 (\<lambda>kv kt. map_option (Pair (fst kv)) (reify m h (snd kv)) = Some kt) d td"
          by (auto simp: those_map_Some)
        from l have
          "list_all2 (\<lambda>kv kt. map_option (Pair (fst kv)) (reify (Suc m) h (snd kv)) = Some kt) d td"
          by (rule list_all2_mono) (auto dest: Suc.IH)
        then have "those (map (\<lambda>kv. map_option (Pair (fst kv)) (reify (Suc m) h (snd kv))) d) = Some td"
          by (simp add: those_map_Some)
        with HRef Some HDict t show ?thesis by simp
      qed
    qed
  qed (use Suc.prems in auto)
qed

lemma reify_prefix: "prefix h h' \<Longrightarrow> reify m h v = Some t \<Longrightarrow> reify m h' v = Some t"
proof (induction m arbitrary: v t)
  case 0
  then show ?case by (cases v) auto
next
  case (Suc m)
  show ?case
  proof (cases v)
    case (HRef a)
    show ?thesis
    proof (cases "deref h a")
      case None
      with Suc.prems HRef show ?thesis by simp
    next
      case (Some obj)
      note d' = deref_prefix [OF Suc.prems(1) Some]
      show ?thesis
      proof (cases obj)
        case (HList xs)
        with Suc.prems HRef Some obtain ts where t: "t = PList ts"
          and l: "list_all2 (\<lambda>x y. reify m h x = Some y) xs ts"
          by (auto simp: those_map_Some)
        from l have "list_all2 (\<lambda>x y. reify m h' x = Some y) xs ts"
          by (rule list_all2_mono) (rule Suc.IH [OF Suc.prems(1)])
        then have "those (map (reify m h') xs) = Some ts"
          by (simp add: those_map_Some)
        with HRef d' HList t show ?thesis by simp
      next
        case (HDict d)
        with Suc.prems HRef Some obtain td where t: "t = PDict td"
          and l: "list_all2 (\<lambda>kv kt. map_option (Pair (fst kv)) (reify m h (snd kv)) = Some kt) d td"
          by (auto simp: those_map_Some)
        from l have
          "list_all2 (\<lambda>kv kt. map_option (Pair (fst kv)) (reify m h' (snd kv)) = Some kt) d td"
          by (rule list_all2_mono) (auto dest: Suc.IH [OF Suc.prems(1)])
        then have "those (map (\<lambda>kv. map_option (Pair (fst kv)) (reify m h' (snd kv))) d) = Some td"
          by (simp add: those_map_Some)
        with HRef d' HDict t show ?thesis by simp
      qed
    qed
  qed (use Suc.prems in auto)
qed

fun kind_rel :: "hval \<Rightarrow> pyval \<Rightarrow> bool" where
  "kind_rel (HRef a) t = (isinstance_list t \<or> isinstance_dict t)"
| "kind_rel v t = (t = shallow [] v)"

lemma reify_kind_rel: "reify m h v = Some t \<Longrightarrow> kind_rel v t"
  by (cases v) (auto dest!: reify_HRef)

lemma kind_rel_str:
  "kind_rel v t \<Longrightarrow> isinstance_str (shallow h v) = isinstance_str t"
  by (cases v; cases t) (simp_all split: option.splits hobj.splits)

lemma kind_rel_bool:
  "kind_rel v t \<Longrightarrow> isinstance_bool (shallow h v) = isinstance_bool t"
  by (cases v; cases t) (simp_all split: option.splits hobj.splits)

lemma kind_rel_int_float:
  "kind_rel v t \<Longrightarrow> isinstance_int_float (shallow h v) = isinstance_int_float t"
  by (cases v; cases t) (simp_all split: option.splits hobj.splits)

lemma kind_rel_scalar:
  "kind_rel v t \<Longrightarrow> isinstance_str t \<or> isinstance_bool t \<or> isinstance_int_float t
     \<Longrightarrow> shallow h v = t"
  by (cases v; cases t) simp_all

lemma reify_shallow_list:
  "reify m h v = Some t \<Longrightarrow> isinstance_list (shallow h v) = isinstance_list t"
  by (cases v) (auto dest!: reify_HRef)

lemma reify_shallow_dict:
  "reify m h v = Some t \<Longrightarrow> isinstance_dict (shallow h v) = isinstance_dict t"
  by (cases v) (auto dest!: reify_HRef)

lemma reify_read_only_scalar:
  assumes "\<forall>a. v \<noteq> HRef a" and "reify m h v = Some t"
  shows "shallow h v = t"
  using assms by (cases v) auto


lemma reify_shallow_cases:
  assumes "reify m h v = Some t"
  shows "shallow h v = t
         \<or> (\<exists>ts. shallow h v = PList [] \<and> t = PList ts)
         \<or> (\<exists>td. shallow h v = PDict [] \<and> t = PDict td)"
proof (cases v)
  case (HRef a)
  from reify_HRef [OF assms [unfolded HRef]] show ?thesis
    unfolding HRef by auto
qed (use assms in auto)

lemma formatters_ignore_contents:
  "equal_op f (PList xs) = Inl FilterError" "equal_op f (PDict d) = Inl FilterError"
  "not_equal_op f (PList xs) = Inl FilterError" "not_equal_op f (PDict d) = Inl FilterError"
  "greater_than_op f (PList xs) = Inl FilterError" "greater_than_op f (PDict d) = Inl FilterError"
  "greater_than_equal_op f (PList xs) = Inl FilterError"
  "greater_than_equal_op f (PDict d) = Inl FilterError"
  "less_than_op f (PList xs) = Inl FilterError" "less_than_op f (PDict d) = Inl FilterError"
  "less_than_equal_op f (PList xs) = Inl FilterError"
  "less_than_equal_op f (PDict d) = Inl FilterError"
  by (simp_all add: equal_op_def not_equal_op_def greater_than_op_def
      greater_than_equal_op_def less_than_op_def less_than_equal_op_def
      validate_range_value_def format_value_simps)

lemma reify_read_only:
  assumes "reify m h v = Some t"
  shows "equal_op f (shallow h v) = equal_op f t"
    and "not_equal_op f (shallow h v) = not_equal_op f t"
    and "greater_than_op f (shallow h v) = greater_than_op f t"
    and "greater_than_equal_op f (shallow h v) = greater_than_equal_op f t"
    and "less_than_op f (shallow h v) = less_than_op f t"
    and "less_than_equal_op f (shallow h v) = less_than_equal_op f t"
  using reify_shallow_cases [OF assms] by (auto simp: formatters_ignore_contents)

lemma reify_PStr: "reify m h x = Some (PStr key) \<Longrightarrow> x = HStr key"
  by (cases x) (auto dest!: reify_HRef)

lemma list_all2_reify_member:
  assumes "list_all2 (\<lambda>x y. reify k h x = Some y) xs ts"
  shows "(HStr key \<in> set xs) = (PStr key \<in> set ts)"
  using assms by (induction rule: list_all2_induct) (auto dest: reify_PStr)

lemma list_all2_map_of:
  assumes "list_all2 (\<lambda>kv kt. fst kt = fst kv \<and> reify k h (snd kv) = Some (snd kt)) d td"
  shows "(map_of d key = None \<and> map_of td key = None)
         \<or> (\<exists>x y. map_of d key = Some x \<and> map_of td key = Some y \<and> reify k h x = Some y)"
  using assms
proof (induction rule: list_all2_induct)
  case Nil
  show ?case by simp
next
  case (Cons kv d kt td)
  then show ?case by (cases kv; cases kt) auto
qed


lemma reify_ref_cases:
  assumes "reify m h (HRef a) = Some t"
  obtains k xs ts where "m = Suc k" "deref h a = Some (HList xs)" "t = PList ts"
      "list_all2 (\<lambda>x y. reify k h x = Some y) xs ts"
  | k d td where "m = Suc k" "deref h a = Some (HDict d)" "t = PDict td"
      "list_all2 (\<lambda>kv kt. fst kt = fst kv \<and> reify k h (snd kv) = Some (snd kt)) d td"
  using reify_HRef [OF assms] by blast

lemma reify_in:
  assumes "reify m h v = Some t"
  shows "h_in key h v = py_in key t"
proof (cases v)
  case (HRef a)
  from assms [unfolded HRef] show ?thesis
  proof (cases rule: reify_ref_cases)
    case (1 k xs ts)
    with list_all2_reify_member [OF 1(4), of key] show ?thesis
      unfolding HRef by simp
  next
    case (2 k d td)
    with list_all2_map_of [OF 2(4), of key] show ?thesis
      unfolding HRef by auto
  qed
qed (use assms in auto)

lemma reify_truthy:
  assumes "reify m h v = Some t"
  shows "h_truthy h v = py_truthy t"
proof (cases v)
  case (HRef a)
  from assms [unfolded HRef] show ?thesis
  proof (cases rule: reify_ref_cases)
    case (1 k xs ts)
    then show ?thesis unfolding HRef by (auto dest: list_all2_lengthD)
  next
    case (2 k d td)
    then show ?thesis unfolding HRef by (auto dest: list_all2_lengthD)
  qed
qed (use assms in auto)

lemma reify_getitem:
  assumes "reify (Suc m) h v = Some t"
  shows "(\<exists>e. h_getitem h v key = Inl e \<and> py_getitem t key = Inl e)
         \<or> (\<exists>x y. h_getitem h v key = Inr x \<and> py_getitem t key = Inr y \<and> reify m h x = Some y)"
proof (cases v)
  case (HRef a)
  from assms [unfolded HRef] show ?thesis
  proof (cases rule: reify_ref_cases)
    case (1 k xs ts)
    then show ?thesis unfolding HRef by simp
  next
    case (2 k d td)
    with list_all2_map_of [OF 2(4), of key] show ?thesis
      unfolding HRef by auto
  qed
qed (use assms in auto)

lemma reify_iter:
  assumes "reify (Suc m) h v = Some t"
  shows "(\<exists>e. h_iter h v = Inl e \<and> py_iter t = Inl e)
         \<or> (\<exists>items ts. h_iter h v = Inr items \<and> py_iter t = Inr ts
               \<and> list_all2 (\<lambda>x y. reify m h x = Some y) items ts)"
proof (cases v)
  case (HRef a)
  from assms [unfolded HRef] show ?thesis
  proof (cases rule: reify_ref_cases)
    case (1 k xs ts)
    then show ?thesis unfolding HRef by simp
  next
    case (2 k d td)
    from 2(4) have "list_all2 (\<lambda>x y. reify m h x = Some y)
        (map (\<lambda>kv. HStr (fst kv)) d) (map (\<lambda>kv. PStr (fst kv)) td)"
      by (induction rule: list_all2_induct) auto
    with 2 show ?thesis unfolding HRef by simp
  qed
next
  case (HStr s)
  have "list_all2 (\<lambda>x y. reify m h x = Some y) (map (\<lambda>c. HStr [c]) s) (map (\<lambda>c. PStr [c]) s)"
    by (induction s) auto
  with assms HStr show ?thesis by auto
qed (use assms in auto)

lemma reify_startswith:
  assumes "reify m h v = Some t"
  shows "py_startswith (shallow h v) p = py_startswith t p
         \<and> (\<forall>b. py_startswith t p = Inr b \<longrightarrow> str_of (shallow h v) = str_of t)"
  using reify_shallow_cases [OF assms] by auto

lemma deref_list_append_same:
  "deref h a = Some (HList xs) \<Longrightarrow> deref (list_append h a x) a = Some (HList (xs @ [x]))"
  by (auto simp: list_append_def deref_def split: if_splits)

lemma deref_kind_list_append:
  "(deref (list_append h a x) b = None) = (deref h b = None)"
  "(\<exists>xs. deref (list_append h a x) b = Some (HList xs)) = (\<exists>xs. deref h b = Some (HList xs))"
  "(\<exists>d. deref (list_append h a x) b = Some (HDict d)) = (\<exists>d. deref h b = Some (HDict d))"
  by (auto simp: list_append_def deref_def nth_list_update split: if_splits option.splits hobj.splits)

lemma h_in_loop_refines:
  assumes "list_all2 kind_rel items ts" and "deref h a = Some (HList (map HStr acc))"
  shows "case in_loop ts acc of
           Inl e \<Rightarrow> snd (h_in_loop h a items) = Inl e
         | Inr r \<Rightarrow> snd (h_in_loop h a items) = Inr ()
                    \<and> deref (fst (h_in_loop h a items)) a = Some (HList (map HStr r))"
  using assms
proof (induction arbitrary: h acc rule: list_all2_induct)
  case Nil
  then show ?case by simp
next
  case (Cons v vs t ts)
  note k = Cons.hyps(1)
  note tests = kind_rel_str [OF k, of h] kind_rel_bool [OF k, of h] kind_rel_int_float [OF k, of h]
  show ?case
  proof (cases "isinstance_str t \<or> isinstance_bool t \<or> isinstance_int_float t")
    case False
    with tests show ?thesis by simp
  next
    case True
    from kind_rel_scalar [OF k True] have sh: "shallow h v = t" .
    define x where "x = (if isinstance_str t then
        [squote] @ replace_char squote [backslash, squote]
          (replace_char backslash [backslash, backslash] (str_of t)) @ [squote]
      else if isinstance_bool t then (if py_truthy t then ''true'' else ''false'')
      else str_num t)"
    have step_h: "h_in_loop h a (v # vs) = h_in_loop (list_append h a (HStr x)) a vs"
      using True by (auto simp: sh x_def)
    have step_p: "in_loop (t # ts) acc = in_loop ts (acc @ [x])"
      using True by (auto simp: x_def)
    have "deref (list_append h a (HStr x)) a = Some (HList (map HStr (acc @ [x])))"
      using deref_list_append_same [OF Cons.prems] by simp
    from Cons.IH [OF this] show ?thesis
      unfolding step_h step_p .
  qed
qed


lemma list_strings_HStr: "deref h a = Some (HList (map HStr r)) \<Longrightarrow> list_strings h a = r"
  by (simp add: list_strings_def comp_def)

lemma deref_fresh: "deref (h @ [obj]) (length h) = Some obj"
  by (simp add: deref_def)

lemma h_in_op_refines:
  assumes "reify m h v = Some t"
  shows "snd (h_in_op h f v) = in_op f t"
proof (cases "isinstance_list t \<and> py_truthy t")
  case False
  with reify_shallow_list [OF assms] reify_truthy [OF assms] show ?thesis
    by (auto simp: h_in_op_def in_op_def)
next
  case True
  then obtain ts where t: "t = PList ts" by (cases t) auto
  from assms t obtain a where v: "v = HRef a" by (cases v) auto
  from assms [unfolded v] t obtain k xs where xs: "deref h a = Some (HList xs)"
    and rel: "list_all2 (\<lambda>x y. reify k h x = Some y) xs ts"
    by (cases rule: reify_ref_cases) auto
  from rel have kr: "list_all2 kind_rel xs ts"
    by (rule list_all2_mono) (rule reify_kind_rel)
  have fresh: "deref (h @ [HList []]) (length h) = Some (HList (map HStr []))"
    by (simp add: deref_fresh)
  note loop = h_in_loop_refines [OF kr fresh]
  have guards: "isinstance_list (shallow h v)" "h_truthy h v" "h_iter h v = Inr xs"
    using True reify_shallow_list [OF assms] reify_truthy [OF assms] xs v by auto
  show ?thesis
  proof (cases "in_loop ts []")
    case (Inl e)
    with loop have "snd (h_in_loop (h @ [HList []]) (length h) xs) = Inl e" by simp
    with guards True Inl t show ?thesis
      by (auto simp: h_in_op_def in_op_def split: prod.splits sum.splits)
  next
    case (Inr r)
    with loop have ok: "snd (h_in_loop (h @ [HList []]) (length h) xs) = Inr ()"
      and at: "deref (fst (h_in_loop (h @ [HList []]) (length h) xs)) (length h)
                 = Some (HList (map HStr r))"
      by simp_all
    from list_strings_HStr [OF at] ok guards True Inr t show ?thesis
      by (auto simp: h_in_op_def in_op_def split: prod.splits sum.splits)
  qed
qed

lemma h_not_in_op_refines:
  assumes "reify m h v = Some t"
  shows "snd (h_not_in_op h f v) = not_in_op f t"
  using h_in_op_refines [OF assms, of f] reify_shallow_list [OF assms]
  by (auto simp: h_not_in_op_def not_in_op_def split: prod.splits sum.splits)

lemma h_formatter_refines:
  "(h_COMPARISON_OPERATORS operator = None \<and> COMPARISON_OPERATORS operator = None)
   \<or> (\<exists>hf f. h_COMPARISON_OPERATORS operator = Some hf \<and> COMPARISON_OPERATORS operator = Some f
         \<and> (\<forall>m h v t fld. reify m h v = Some t \<longrightarrow> snd (hf h fld v) = f fld t))"
  by (auto simp: h_COMPARISON_OPERATORS_def COMPARISON_OPERATORS_def read_only_def
      reify_read_only h_in_op_refines h_not_in_op_refines)

lemma h_lookup_operator_refines:
  assumes "reify m h opv = Some topv"
  shows "(\<exists>e. h_lookup_operator opv = Inl e \<and> lookup_operator topv = Inl e)
   \<or> (h_lookup_operator opv = Inr None \<and> lookup_operator topv = Inr None)
   \<or> (\<exists>hf f. h_lookup_operator opv = Inr (Some hf) \<and> lookup_operator topv = Inr (Some f)
         \<and> (\<forall>m h v t fld. reify m h v = Some t \<longrightarrow> snd (hf h fld v) = f fld t))"
proof (cases opv)
  case (HRef a)
  from assms [unfolded HRef] show ?thesis
    unfolding HRef by (cases rule: reify_ref_cases) auto
next
  case (HStr operator)
  with assms h_formatter_refines [of operator] show ?thesis by auto
qed (use assms in auto)

lemma reify_HStr_iff: "reify m h x = Some y \<Longrightarrow> (x = HStr s) = (y = PStr s)"
  by (cases x) (auto dest!: reify_HRef)

lemma h_parse_conditions_refines:
  assumes child: "\<And>h c t. reify m h c = Some t \<Longrightarrow>
      snd (h_parse_comparison_condition n h c) = parse_comparison_condition t"
  shows "list_all2 (\<lambda>x y. reify m h0 x = Some y) items ts \<Longrightarrow> prefix h0 h \<Longrightarrow> length h0 \<le> a
    \<Longrightarrow> deref h a = Some (HList (map HStr acc))
    \<Longrightarrow> (case parse_conditions ts of
           Inl e \<Rightarrow> snd (h_parse_conditions n h a items) = Inl e
         | Inr frags \<Rightarrow> snd (h_parse_conditions n h a items) = Inr ()
             \<and> deref (fst (h_parse_conditions n h a items)) a = Some (HList (map HStr (acc @ frags))))"
proof (induction arbitrary: h acc rule: list_all2_induct)
  case Nil
  then show ?case by simp
next
  case (Cons c cs t ts)
  obtain h1 r1 where run: "h_parse_comparison_condition n h c = (h1, r1)" by force
  from reify_prefix [OF Cons.prems(1) Cons.hyps(1)] have "reify m h c = Some t" .
  from child [OF this] run have r1: "r1 = parse_comparison_condition t" by simp
  from h_parse_frame [of n] run have p1: "prefix h h1" by blast
  from deref_prefix [OF p1 Cons.prems(3)] have d1: "deref h1 a = Some (HList (map HStr acc))" .
  show ?case
  proof (cases r1)
    case (Inl e)
    with r1 have "parse_comparison_condition t = Inl e" by simp
    with run Inl show ?thesis by simp
  next
    case (Inr frag)
    let ?h2 = "list_append h1 a (HStr frag)"
    have step: "h_parse_conditions n h a (c # cs) = h_parse_conditions n ?h2 a cs"
      using run Inr by simp
    have p2: "prefix h0 ?h2"
      using Cons.prems(1) p1 Cons.prems(2) by (meson list_append_prefix prefix_order.trans)
    have d2: "deref ?h2 a = Some (HList (map HStr (acc @ [frag])))"
      using deref_list_append_same [OF d1] by simp
    from r1 Inr have pc: "parse_comparison_condition t = Inr frag" by simp
    from Cons.IH [OF p2 Cons.prems(2) d2] show ?thesis
      unfolding step by (cases "parse_conditions ts") (simp_all add: pc)
  qed
qed

lemma logical_step:
  assumes child: "\<And>h c t. reify k h c = Some t \<Longrightarrow>
      snd (h_parse_comparison_condition n h c) = parse_comparison_condition t"
    and r: "reify (Suc k) h v = Some t"
  shows "snd (h_parse_logical_condition (Suc n) h v) = parse_logical_condition t"
proof -
  note ins = reify_in [OF r]
  note unfold = parse_logical_condition.simps [of t] h_parse_logical_condition.simps(2) [of n h v]
  show ?thesis
  proof (cases "py_in ''operator'' t = Inr True \<and> py_in ''conditions'' t = Inr True")
    case False
    then show ?thesis
      by (cases "py_in ''operator'' t"; cases "py_in ''conditions'' t")
         (auto simp: unfold ins)
  next
    case True
    then have in1: "py_in ''operator'' t = Inr True" and in2: "py_in ''conditions'' t = Inr True"
      by simp_all
    note ins' = ins [of "''operator''", unfolded in1] ins [of "''conditions''", unfolded in2]
    from reify_getitem [OF r, of "''operator''"] consider
      (e1) e where "h_getitem h v ''operator'' = Inl e" "py_getitem t ''operator'' = Inl e"
    | (v1) opv topv where "h_getitem h v ''operator'' = Inr opv"
        "py_getitem t ''operator'' = Inr topv" "reify k h opv = Some topv"
      by blast
    then show ?thesis
    proof cases
      case e1
      then show ?thesis by (simp add: unfold ins' in1 in2)
    next
      case v1
      note ops = reify_HStr_iff [OF v1(3)]
      from reify_getitem [OF r, of "''conditions''"] consider
        (e2) e where "h_getitem h v ''conditions'' = Inl e" "py_getitem t ''conditions'' = Inl e"
      | (v2) conds tconds where "h_getitem h v ''conditions'' = Inr conds"
          "py_getitem t ''conditions'' = Inr tconds" "reify k h conds = Some tconds"
        by blast
      then show ?thesis
      proof cases
        case e2
        with v1 show ?thesis by (simp add: unfold ins' in1 in2)
      next
        case v2
        note truthy = reify_truthy [OF v2(3)]
        show ?thesis
        proof (cases "py_truthy tconds")
          case False
          with v1 v2 truthy show ?thesis by (simp add: unfold ins' in1 in2)
        next
          case tr: True
          from reify_iter [OF reify_mono [OF v2(3)]] consider
            (e3) e where "h_iter h conds = Inl e" "py_iter tconds = Inl e"
          | (v3) items ts where "h_iter h conds = Inr items" "py_iter tconds = Inr ts"
              "list_all2 (\<lambda>x y. reify k h x = Some y) items ts"
            by blast
          then show ?thesis
          proof cases
            case e3
            with v1 v2 truthy tr show ?thesis by (simp add: unfold ins' in1 in2)
          next
            case v3
            have fresh: "deref (h @ [HList []]) (length h) = Some (HList (map HStr []))"
              by (simp add: deref_fresh)
            note run = h_parse_conditions_refines [OF child v3(3) _ _ fresh, simplified]
            obtain h' r' where hr: "h_parse_conditions n (h @ [HList []]) (length h) items = (h', r')"
              by force
            show ?thesis
            proof (cases "parse_conditions ts")
              case (Inl e)
              with run hr have "r' = Inl e" by simp
              with v1 v2 v3 truthy tr Inl hr show ?thesis
                by (simp add: unfold ins' in1 in2)
            next
              case (Inr frags)
              with run hr have ok: "r' = Inr ()"
                and at: "deref h' (length h) = Some (HList (map HStr frags))"
                by simp_all
              from list_strings_HStr [OF at] have ls: "list_strings h' (length h) = frags" .
              from v1 v2 v3 truthy tr Inr hr ok ls show ?thesis
                by (simp add: unfold ins' in1 in2 ops)
            qed
          qed
        qed
      qed
    qed
  qed
qed

lemma comparison_step:
  assumes lgc: "snd (h_parse_logical_condition n h v) = parse_logical_condition t"
    and r: "reify (Suc k) h v = Some t"
  shows "snd (h_parse_comparison_condition (Suc n) h v) = parse_comparison_condition t"
proof -
  note ins = reify_in [OF r]
  note unfold = parse_comparison_condition.simps [of t]
    h_parse_comparison_condition.simps(2) [of n h v]
  show ?thesis
  proof (cases "py_in ''field'' t = Inr True")
    case False
    then show ?thesis
      by (cases "py_in ''field'' t") (auto simp: unfold ins lgc)
  next
    case in0: True
    note ins0 = ins [of "''field''", unfolded in0]
    from reify_getitem [OF r, of "''field''"] consider
      (e0) e where "h_getitem h v ''field'' = Inl e" "py_getitem t ''field'' = Inl e"
    | (v0) fld tfld where "h_getitem h v ''field'' = Inr fld"
        "py_getitem t ''field'' = Inr tfld" "reify k h fld = Some tfld"
      by blast
    then show ?thesis
    proof cases
      case e0
      then show ?thesis by (simp add: unfold ins0 in0)
    next
      case v0
      from reify_startswith [OF v0(3), of "''meta.''"] have
        sw: "py_startswith (shallow h fld) ''meta.'' = py_startswith tfld ''meta.''"
        and so: "\<And>b. py_startswith tfld ''meta.'' = Inr b \<Longrightarrow> str_of (shallow h fld) = str_of tfld"
        by simp_all
      show ?thesis
      proof (cases "py_startswith tfld ''meta.''")
        case (Inl e)
        with v0 sw show ?thesis by (simp add: unfold ins0 in0)
      next
        case (Inr b)
        note so' = so [OF Inr]
        show ?thesis
        proof (cases "py_in ''operator'' t = Inr True \<and> py_in ''value'' t = Inr True")
          case False
          with v0 sw Inr so' show ?thesis
            by (cases "py_in ''operator'' t"; cases "py_in ''value'' t")
               (auto simp: unfold ins0 in0 ins Let_def)
        next
          case True
          then have in1: "py_in ''operator'' t = Inr True" and in2: "py_in ''value'' t = Inr True"
            by simp_all
          note ins' = ins [of "''operator''", unfolded in1] ins [of "''value''", unfolded in2]
          from reify_getitem [OF r, of "''operator''"] consider
            (e1) e where "h_getitem h v ''operator'' = Inl e" "py_getitem t ''operator'' = Inl e"
          | (v1) opv topv where "h_getitem h v ''operator'' = Inr opv"
              "py_getitem t ''operator'' = Inr topv" "reify k h opv = Some topv"
            by blast
          then show ?thesis
          proof cases
            case e1
            with v0 sw Inr so' show ?thesis
              by (simp add: unfold ins0 in0 ins' in1 in2 Let_def)
          next
            case v1
            from reify_getitem [OF r, of "''value''"] consider
              (e2) e where "h_getitem h v ''value'' = Inl e" "py_getitem t ''value'' = Inl e"
            | (v2) val tval where "h_getitem h v ''value'' = Inr val"
                "py_getitem t ''value'' = Inr tval" "reify k h val = Some tval"
              by blast
            then show ?thesis
            proof cases
              case e2
              with v0 v1 sw Inr so' show ?thesis
                by (simp add: unfold ins0 in0 ins' in1 in2 Let_def)
            next
              case v2
              from h_lookup_operator_refines [OF v1(3)] consider
                (l1) e where "h_lookup_operator opv = Inl e" "lookup_operator topv = Inl e"
              | (l2) "h_lookup_operator opv = Inr None" "lookup_operator topv = Inr None"
              | (l3) hf f where "h_lookup_operator opv = Inr (Some hf)"
                  "lookup_operator topv = Inr (Some f)"
                  "\<And>m h v t fld. reify m h v = Some t \<Longrightarrow> snd (hf h fld v) = f fld t"
                by blast
              then show ?thesis
              proof cases
                case l1
                with v0 v1 v2 sw Inr so' show ?thesis
                  by (simp add: unfold ins0 in0 ins' in1 in2 Let_def)
              next
                case l2
                with v0 v1 v2 sw Inr so' show ?thesis
                  by (simp add: unfold ins0 in0 ins' in1 in2 Let_def)
              next
                case l3
                note fmt = l3(3) [OF v2(3)]
                from v0 v1 v2 sw Inr so' l3(1,2) show ?thesis
                  by (simp add: unfold ins0 in0 ins' in1 in2 Let_def fmt)
              qed
            qed
          qed
        qed
      qed
    qed
  qed
qed

lemma scalar_logical:
  assumes "\<forall>a. v \<noteq> HRef a"
  shows "snd (h_parse_logical_condition (Suc n) h v) = parse_logical_condition (shallow h v)"
  using assms by (cases v) (simp_all add: parse_logical_condition.simps)

lemma h_parse_refines:
  "(\<forall>h v t n. reify m h v = Some t \<and> 2 * m + 1 \<le> n \<longrightarrow>
       snd (h_parse_logical_condition n h v) = parse_logical_condition t)
   \<and> (\<forall>h v t n. reify m h v = Some t \<and> 2 * m + 2 \<le> n \<longrightarrow>
       snd (h_parse_comparison_condition n h v) = parse_comparison_condition t)"
proof (induction m)
  case 0
  have lgc: "snd (h_parse_logical_condition n h v) = parse_logical_condition t"
    if "reify 0 h v = Some t" and "1 \<le> n" for h v t n
  proof -
    from that(2) obtain n1 where n: "n = Suc n1" by (cases n) auto
    from reify_HRef_0 [OF that(1)] have sc: "\<forall>a. v \<noteq> HRef a" .
    from reify_scalar [OF sc, of 0 h] that(1) have "t = shallow h v" by simp
    with scalar_logical [OF sc, of n1 h] n show ?thesis by simp
  qed
  have cmp: "snd (h_parse_comparison_condition n h v) = parse_comparison_condition t"
    if "reify 0 h v = Some t" and "2 \<le> n" for h v t n
  proof -
    from that(2) obtain n1 where n: "n = Suc n1" and n1: "1 \<le> n1" by (cases n) auto
    from comparison_step [OF lgc [OF that(1) n1] reify_mono [OF that(1)]] n
    show ?thesis by simp
  qed
  from lgc cmp show ?case by simp
next
  case (Suc m)
  then have ih: "\<And>h v t n. reify m h v = Some t \<Longrightarrow> 2 * m + 2 \<le> n \<Longrightarrow>
       snd (h_parse_comparison_condition n h v) = parse_comparison_condition t"
    by blast
  have lgc: "snd (h_parse_logical_condition n h v) = parse_logical_condition t"
    if "reify (Suc m) h v = Some t" and "2 * Suc m + 1 \<le> n" for h v t n
  proof -
    from that(2) obtain n1 where n: "n = Suc n1" and n1: "2 * m + 2 \<le> n1" by (cases n) auto
    have child: "\<And>h c t. reify m h c = Some t \<Longrightarrow>
        snd (h_parse_comparison_condition n1 h c) = parse_comparison_condition t"
      using ih n1 by blast
    from logical_step [OF child that(1)] n show ?thesis by simp
  qed
  have cmp: "snd (h_parse_comparison_condition n h v) = parse_comparison_condition t"
    if "reify (Suc m) h v = Some t" and "2 * Suc m + 2 \<le> n" for h v t n
  proof -
    from that(2) obtain n1 where n: "n = Suc n1" and n1: "2 * Suc m + 1 \<le> n1" by (cases n) auto
    from comparison_step [OF lgc [OF that(1) n1] reify_mono [OF that(1)]] n
    show ?thesis by simp
  qed
  from lgc cmp show ?case by blast
qed

lemma h_normalize_filters_refines:
  assumes "reify m h v = Some t" and "2 * m + 2 \<le> n"
  shows "snd (h_normalize_filters n h v) = normalize_filters t"
proof -
  from h_parse_refines [of m] assms have
    lgc: "snd (h_parse_logical_condition n h v) = parse_logical_condition t"
    and cmp: "snd (h_parse_comparison_condition n h v) = parse_comparison_condition t"
    by auto
  show ?thesis
    by (cases "py_in ''field'' t")
       (auto simp: h_normalize_filters_def normalize_filters_def reify_shallow_dict [OF assms(1)]
          reify_in [OF assms(1)] lgc cmp)
qed

text \<open>
  Claim C9. \<^verbatim>\<open>normalize_filters\<close> is pure. Whatever it returns or raises, every object that
  was in the store before the call is the same after it (the code appends only to the
  lists it has allocated itself), so the tree its argument stands for is unchanged. With
  frames enough for the depth of the tree, the result is the result of the tree model on
  that tree: it depends on nothing but the tree, and a second call returns or raises the
  same.
\<close>

theorem normalize_filters_leaves_input_unchanged:
  assumes "h_normalize_filters n h filters = (h', r)"
  shows "length h \<le> length h' \<and> (\<forall>a < length h. h' ! a = h ! a)
     \<and> (\<forall>m t. reify m h filters = Some t \<longrightarrow> reify m h' filters = Some t)
     \<and> (\<forall>m t. reify m h filters = Some t \<and> 2 * m + 2 \<le> n \<longrightarrow>
           r = normalize_filters t \<and> snd (h_normalize_filters n h' filters) = r)"
proof -
  from h_normalize_filters_frame [OF assms] have p: "prefix h h'" .
  then obtain fresh where h': "h' = h @ fresh" by (auto simp: prefix_def)
  have 1: "length h \<le> length h'" by (simp add: h')
  have 2: "\<forall>a < length h. h' ! a = h ! a" by (simp add: h' nth_append)
  have 3: "\<forall>m t. reify m h filters = Some t \<longrightarrow> reify m h' filters = Some t"
    using reify_prefix [OF p] by blast
  have 4: "\<forall>m t. reify m h filters = Some t \<and> 2 * m + 2 \<le> n \<longrightarrow>
           r = normalize_filters t \<and> snd (h_normalize_filters n h' filters) = r"
  proof (intro allI impI, elim conjE)
    fix m t
    assume t: "reify m h filters = Some t" and n: "2 * m + 2 \<le> n"
    from h_normalize_filters_refines [OF t n] assms have first: "r = normalize_filters t" by simp
    from 3 t have "reify m h' filters = Some t" by blast
    from h_normalize_filters_refines [OF this n] first
    show "r = normalize_filters t \<and> snd (h_normalize_filters n h' filters) = r" by simp
  qed
  from 1 2 3 4 show ?thesis by blast
qed

theorem normalize_filters_leaves_input_unchanged_witness:
  "h_normalize_filters 10
      [HDict [(''operator'', HStr ''OR''), (''conditions'', HRef 2)],
       HDict [(''field'', HStr ''meta.v''), (''operator'', HStr ''in''), (''value'', HRef 3)],
       HList [HRef 1, HRef 1],
       HList [HInt 3, HBool True]] (HRef 0)
     = ([HDict [(''operator'', HStr ''OR''), (''conditions'', HRef 2)],
         HDict [(''field'', HStr ''meta.v''), (''operator'', HStr ''in''), (''value'', HRef 3)],
         HList [HRef 1, HRef 1],
         HList [HInt 3, HBool True],
         HList [HStr ''v in (3, true)'', HStr ''v in (3, true)''],
         HList [HStr ''3'', HStr ''true''],
         HList [HStr ''3'', HStr ''true'']],
        Inr ''(v in (3, true) or v in (3, true))'')
   \<and> reify 4
      [HDict [(''operator'', HStr ''OR''), (''conditions'', HRef 2)],
       HDict [(''field'', HStr ''meta.v''), (''operator'', HStr ''in''), (''value'', HRef 3)],
       HList [HRef 1, HRef 1],
       HList [HInt 3, HBool True],
       HList [HStr ''v in (3, true)'', HStr ''v in (3, true)''],
       HList [HStr ''3'', HStr ''true''],
       HList [HStr ''3'', HStr ''true'']] (HRef 0)
     = Some (PDict [(''operator'', PStr ''OR''), (''conditions'', PList
         [PDict [(''field'', PStr ''meta.v''), (''operator'', PStr ''in''),
                 (''value'', PList [PInt 3, PBool True])],
          PDict [(''field'', PStr ''meta.v''), (''operator'', PStr ''in''),
                 (''value'', PList [PInt 3, PBool True])]])])
   \<and> normalize_filters (PDict [(''operator'', PStr ''OR''), (''conditions'', PList
         [PDict [(''field'', PStr ''meta.v''), (''operator'', PStr ''in''),
                 (''value'', PList [PInt 3, PBool True])],
          PDict [(''field'', PStr ''meta.v''), (''operator'', PStr ''in''),
                 (''value'', PList [PInt 3, PBool True])]])])
     = Inr ''(v in (3, true) or v in (3, true))''"
proof -
  let ?h = "[HDict [(''operator'', HStr ''OR''), (''conditions'', HRef 2)],
       HDict [(''field'', HStr ''meta.v''), (''operator'', HStr ''in''), (''value'', HRef 3)],
       HList [HRef 1, HRef 1],
       HList [HInt 3, HBool True]]"
  let ?h' = "?h @ [HList [HStr ''v in (3, true)'', HStr ''v in (3, true)''],
         HList [HStr ''3'', HStr ''true''],
         HList [HStr ''3'', HStr ''true'']]"
  let ?t = "PDict [(''operator'', PStr ''OR''), (''conditions'', PList
         [PDict [(''field'', PStr ''meta.v''), (''operator'', PStr ''in''),
                 (''value'', PList [PInt 3, PBool True])],
          PDict [(''field'', PStr ''meta.v''), (''operator'', PStr ''in''),
                 (''value'', PList [PInt 3, PBool True])]])]"
  have run: "h_normalize_filters 10 ?h (HRef 0) = (?h', Inr ''(v in (3, true) or v in (3, true))'')"
    by code_simp
  have before: "reify 4 ?h (HRef 0) = Some ?t"
    by code_simp
  note inst = normalize_filters_leaves_input_unchanged [OF run]
  from inst before have after: "reify 4 ?h' (HRef 0) = Some ?t" by blast
  have fuel: "2 * 4 + 2 \<le> (10::nat)" by simp
  from inst before fuel have "Inr ''(v in (3, true) or v in (3, true))'' = normalize_filters ?t"
    by blast
  with run after show ?thesis by simp
qed

end
